theory Spec2Isabelle
  imports Complex_Main "HOL-Library.Word" "HOL-Library.Signed_Division" "HOL-Library.Monad_Syntax"
begin

unbundle bit_operations_syntax

section \<open>MTGP32-23209 on 256 lanes: constants and data\<close>

text \<open>
  The development embeds \<^verbatim>\<open>mtgp32-cuda256-tex.cu\<close>. Array index expressions of
  the source are C \<^verbatim>\<open>int\<close> expressions and are kept as \<^typ>\<open>int\<close>; 32-bit data
  words are \<^typ>\<open>32 word\<close>. Every array access is checked against the declared size of
  the array: an access outside it is undefined behaviour in C and is the value
  \<^term>\<open>None\<close> here.
\<close>

type_synonym u32 = "32 word"

definition N :: int where
  "N = 726"

definition THREAD_NUM :: int where
  "THREAD_NUM = 256"

definition LARGE_SIZE :: int where
  "LARGE_SIZE = THREAD_NUM * 4"

definition BLOCK_NUM_MAX :: nat where
  "BLOCK_NUM_MAX = 128"

definition TBL_SIZE :: nat where
  "TBL_SIZE = 16"

text \<open>The constant \<^verbatim>\<open>__constant__ uint32_t mask = 0xff800000\<close>.\<close>

definition mask_const :: u32 where
  "mask_const = 0xff800000"

text \<open>
  The type \<^verbatim>\<open>mtgp32_params_fast_t\<close> is declared in \<^verbatim>\<open>mtgp32-fast.h\<close>; the
  record has the six members the source reads (\<open>p_pos\<close>, \<open>p_sh1\<close> and \<open>p_sh2\<close> are
  the members \<^verbatim>\<open>pos\<close>, \<^verbatim>\<open>sh1\<close> and \<^verbatim>\<open>sh2\<close>). The three tables are C arrays of
  \<^verbatim>\<open>TBL_SIZE\<close> words.
\<close>

record mtgp32_params_fast_t =
  p_pos :: int
  p_sh1 :: int
  p_sh2 :: int
  tbl :: "u32 list"
  tmp_tbl :: "u32 list"
  flt_tmp_tbl :: "u32 list"

text \<open>
  The device-side parameter storage: three constant arrays of \<^verbatim>\<open>BLOCK_NUM_MAX\<close>
  words and the linear memory bound to the three texture references.
\<close>

record device =
  pos_tbl :: "u32 list"
  sh1_tbl :: "u32 list"
  sh2_tbl :: "u32 list"
  tex_param_ref :: "u32 list"
  tex_temper_ref :: "u32 list"
  tex_single_ref :: "u32 list"

text \<open>Checked array reads and writes, with a \<^typ>\<open>nat\<close> and an \<^typ>\<open>int\<close> index.\<close>

definition rdn :: "'a list \<Rightarrow> nat \<Rightarrow> 'a option" where
  "rdn xs i = (if i < length xs then Some (xs ! i) else None)"

definition rd :: "'a list \<Rightarrow> int \<Rightarrow> 'a option" where
  "rd xs i = (if 0 \<le> i \<and> i < int (length xs) then Some (xs ! nat i) else None)"

definition wr :: "'a list \<Rightarrow> int \<Rightarrow> 'a \<Rightarrow> 'a list option" where
  "wr xs i v = (if 0 \<le> i \<and> i < int (length xs) then Some (xs[nat i := v]) else None)"

text \<open>The values of a C \<^verbatim>\<open>int\<close> (32 bits).\<close>

definition int_ok :: "int \<Rightarrow> bool" where
  "int_ok x = (- (2 ^ 31) \<le> x \<and> x < 2 ^ 31)"

text \<open>\<^verbatim>\<open>tex1Dfetch\<close> on a texture bound to linear memory: a read at an integer index.\<close>

definition tex1Dfetch :: "u32 list \<Rightarrow> nat \<Rightarrow> u32 option" where
  "tex1Dfetch tex x = rdn tex x"

section \<open>Recurrence and tempering\<close>

text \<open>
  The shifts are by a 32-bit count read from a constant table. \<^term>\<open>push_bit\<close> and
  \<^term>\<open>drop_bit\<close> on \<^typ>\<open>u32\<close> give 0 for a count of 32 or more, which is what the
  device's shift instructions do.
\<close>

definition para_rec :: "device \<Rightarrow> u32 \<Rightarrow> u32 \<Rightarrow> u32 \<Rightarrow> nat \<Rightarrow> u32 option" where
  "para_rec dev X1 X2 Y bid = do {
     let X = (X1 AND mask_const) XOR X2;
     s1 \<leftarrow> rdn (sh1_tbl dev) bid;
     let X = X XOR push_bit (unat s1) X;
     s2 \<leftarrow> rdn (sh2_tbl dev) bid;
     let Y = X XOR drop_bit (unat s2) Y;
     MAT \<leftarrow> tex1Dfetch (tex_param_ref dev) (bid * 16 + unat (Y AND 0x0f));
     Some (Y XOR MAT)
   }"

definition temper :: "device \<Rightarrow> u32 \<Rightarrow> u32 \<Rightarrow> nat \<Rightarrow> u32 option" where
  "temper dev V T bid = do {
     let T = T XOR drop_bit 16 T;
     let T = T XOR drop_bit 8 T;
     MAT \<leftarrow> tex1Dfetch (tex_temper_ref dev) (bid * 16 + unat (T AND 0x0f));
     Some (V XOR MAT)
   }"

definition temper_single :: "device \<Rightarrow> u32 \<Rightarrow> u32 \<Rightarrow> nat \<Rightarrow> u32 option" where
  "temper_single dev V T bid = do {
     let T = T XOR drop_bit 16 T;
     let T = T XOR drop_bit 8 T;
     MAT \<leftarrow> tex1Dfetch (tex_single_ref dev) (bid * 16 + unat (T AND 0x0f));
     let r = drop_bit 9 V XOR MAT;
     Some r
   }"

section \<open>Loading the parameters\<close>

text \<open>
  \<^verbatim>\<open>make_constant\<close> and \<^verbatim>\<open>make_texture\<close> stage the parameters in host arrays
  and copy them to the device. The only failure branch of the source is a failed
  \<^verbatim>\<open>malloc\<close> (\<^verbatim>\<open>exit(1)\<close>); \<open>heap_ok\<close> says whether the allocations succeed.
  Reading \<^verbatim>\<open>params[i]\<close> beyond the parameter array, or copying more than
  \<^verbatim>\<open>BLOCK_NUM_MAX\<close> words to a constant array, is out of bounds.
\<close>

datatype error = AllocFailure | OutOfBounds | BadBlockNum | IntOverflow

text \<open>\<^verbatim>\<open>cudaMemcpyToSymbol(dst, src, size1)\<close>: the first words of \<open>dst\<close> are replaced.\<close>

definition memcpy_to :: "u32 list \<Rightarrow> u32 list \<Rightarrow> u32 list" where
  "memcpy_to dst src = src @ drop (length src) dst"

definition make_constant ::
  "bool \<Rightarrow> mtgp32_params_fast_t list \<Rightarrow> nat \<Rightarrow> device \<Rightarrow> error + device" where
  "make_constant heap_ok params block_num dev =
     (if \<not> heap_ok then Inl AllocFailure
      else if length params < block_num \<or> BLOCK_NUM_MAX < block_num then Inl OutOfBounds
      else
        let h_pos_tbl = map (\<lambda>i. word_of_int (p_pos (params ! i))) [0..<block_num];
            h_sh1_tbl = map (\<lambda>i. word_of_int (p_sh1 (params ! i))) [0..<block_num];
            h_sh2_tbl = map (\<lambda>i. word_of_int (p_sh2 (params ! i))) [0..<block_num]
        in Inr (dev\<lparr>pos_tbl := memcpy_to (pos_tbl dev) h_pos_tbl,
                    sh1_tbl := memcpy_to (sh1_tbl dev) h_sh1_tbl,
                    sh2_tbl := memcpy_to (sh2_tbl dev) h_sh2_tbl\<rparr>))"

text \<open>
  The double loop of \<^verbatim>\<open>make_texture\<close> fills slot \<open>i * TBL_SIZE + j\<close> from entry
  \<open>j\<close> of the tables of \<open>params[i]\<close>; slot \<open>k\<close> is therefore filled from entry
  \<open>k mod TBL_SIZE\<close> of \<open>params[k div TBL_SIZE]\<close>. The textures are bound to exactly
  \<open>block_num * TBL_SIZE\<close> words.
\<close>

definition make_texture ::
  "bool \<Rightarrow> mtgp32_params_fast_t list \<Rightarrow> nat \<Rightarrow> device \<Rightarrow> error + device" where
  "make_texture heap_ok params block_num dev =
     (let count = block_num * TBL_SIZE in
      if \<not> heap_ok then Inl AllocFailure
      else if length params < block_num
              \<or> list_ex (\<lambda>i. length (tbl (params ! i)) < TBL_SIZE
                             \<or> length (tmp_tbl (params ! i)) < TBL_SIZE
                             \<or> length (flt_tmp_tbl (params ! i)) < TBL_SIZE) [0..<block_num]
           then Inl OutOfBounds
      else
        Inr (dev\<lparr>
          tex_param_ref :=
            map (\<lambda>k. tbl (params ! (k div TBL_SIZE)) ! (k mod TBL_SIZE)) [0..<count],
          tex_temper_ref :=
            map (\<lambda>k. tmp_tbl (params ! (k div TBL_SIZE)) ! (k mod TBL_SIZE)) [0..<count],
          tex_single_ref :=
            map (\<lambda>k. flt_tmp_tbl (params ! (k div TBL_SIZE)) ! (k mod TBL_SIZE)) [0..<count]\<rparr>))"

text \<open>The two loaders in the order \<^verbatim>\<open>main\<close> calls them.\<close>

definition load_params ::
  "bool \<Rightarrow> mtgp32_params_fast_t list \<Rightarrow> nat \<Rightarrow> device \<Rightarrow> error + device" where
  "load_params heap_ok params block_num dev =
     (case make_constant heap_ok params block_num dev of
        Inl e \<Rightarrow> Inl e
      | Inr dev' \<Rightarrow> make_texture heap_ok params block_num dev')"

text \<open>The device before any parameter is loaded: zeroed constants, no texture bound.\<close>

definition device0 :: device where
  "device0 = \<lparr>pos_tbl = replicate BLOCK_NUM_MAX 0, sh1_tbl = replicate BLOCK_NUM_MAX 0,
              sh2_tbl = replicate BLOCK_NUM_MAX 0, tex_param_ref = [],
              tex_temper_ref = [], tex_single_ref = []\<rparr>"

text \<open>
  The recurrence and the two tempering transforms in the words of the specification,
  on one parameter set.
\<close>

definition next_word :: "mtgp32_params_fast_t \<Rightarrow> u32 \<Rightarrow> u32 \<Rightarrow> u32 \<Rightarrow> u32" where
  "next_word ps x1 x2 y =
     (let x = (x1 AND 0xff800000) XOR x2;
          x = x XOR push_bit (nat (p_sh1 ps)) x;
          y = x XOR drop_bit (nat (p_sh2 ps)) y
      in y XOR (tbl ps ! unat (y AND 0xF)))"

definition t_reduce :: "u32 \<Rightarrow> u32" where
  "t_reduce T = (let t = T XOR drop_bit 16 T in t XOR drop_bit 8 t)"

definition temperInt :: "mtgp32_params_fast_t \<Rightarrow> u32 \<Rightarrow> u32 \<Rightarrow> u32" where
  "temperInt ps v t = v XOR (tmp_tbl ps ! unat (t_reduce t AND 0xF))"

definition temperFloat :: "mtgp32_params_fast_t \<Rightarrow> u32 \<Rightarrow> u32 \<Rightarrow> u32" where
  "temperFloat ps v t = drop_bit 9 v XOR (flt_tmp_tbl ps ! unat (t_reduce t AND 0xF))"

text \<open>
  The output of the single-precision kernel is copied to an array of
  \<^verbatim>\<open>float\<close>. \<open>ieee_single\<close> is the number a 32-bit pattern stands for in the
  IEEE-754 binary32 format: sign in bit 31, biased exponent in bits 30 to 23, fraction
  in bits 22 to 0; infinities and NaNs have no value.
\<close>

definition ieee_single :: "u32 \<Rightarrow> real option" where
  "ieee_single w =
     (let s = (if drop_bit 31 w = 0 then 1 else - 1);
          e = unat (drop_bit 23 w AND 0xFF);
          m = unat (w AND 0x7FFFFF)
      in if e = 255 then None
         else if e = 0 then Some (s * (real m / 2 ^ 23) * 2 / 2 ^ 127)
         else Some (s * (1 + real m / 2 ^ 23) * 2 ^ e / 2 ^ 127))"

text \<open>A parameter set whose shifts are in the range of the specification.\<close>

definition shifts_ok :: "mtgp32_params_fast_t \<Rightarrow> bool" where
  "shifts_ok ps = (1 \<le> p_sh1 ps \<and> p_sh1 ps \<le> 31 \<and> 1 \<le> p_sh2 ps \<and> p_sh2 ps \<le> 31)"

section \<open>The block of 256 lanes\<close>

text \<open>
  A block runs \<^verbatim>\<open>THREAD_NUM\<close> lanes, \<open>tid = 0, \<dots>, 255\<close>. The lanes are modelled
  in lock-step: each statement of the kernel is executed by all lanes before the next
  one starts, so a statement that loads from the shared buffer sees the stores of the
  statements before it and none of its own. This is the order the barriers
  \<^verbatim>\<open>__syncthreads()\<close> enforce between phases 2 and 3 and after phase 4; between
  phases 1 and 2 and between phases 3 and 4, where the source has the barrier commented
  out, it is one of the orders the hardware may choose. Which indices a lane uses does
  not depend on the order. \<open>for_each\<close> runs a step for each element of a list in turn
  and stops at the first fault; \<open>all_lanes\<close> evaluates an expression on every lane.
\<close>

fun for_each :: "('i \<Rightarrow> 's \<Rightarrow> 's option) \<Rightarrow> 'i list \<Rightarrow> 's \<Rightarrow> 's option" where
  "for_each f [] s = Some s"
| "for_each f (x # xs) s = (case f x s of None \<Rightarrow> None | Some s' \<Rightarrow> for_each f xs s')"

definition lanes :: "int list" where
  "lanes = map int [0..<nat THREAD_NUM]"

definition all_lanes :: "(int \<Rightarrow> 'a option) \<Rightarrow> 'a list option" where
  "all_lanes f = those (map f lanes)"

subsection \<open>Loading and saving the state\<close>

text \<open>
  \<open>st\<close> is the array \<^verbatim>\<open>d_status[bid].status\<close> of \<^verbatim>\<open>N\<close> words, \<open>status\<close> the
  shared array of \<^verbatim>\<open>LARGE_SIZE\<close> words. Each lane performs up to three copies;
  \<open>status_read_idx\<close> and \<open>status_write_idx\<close> list, in program order, the index into
  \<open>status\<close> and the index into \<open>st\<close> of every copy a lane performs.
\<close>

definition status_read_idx :: "int \<Rightarrow> (int \<times> int) list" where
  "status_read_idx tid =
     [(LARGE_SIZE - N + tid, tid),
      (LARGE_SIZE - N + THREAD_NUM + tid, THREAD_NUM + tid)]
     @ (if tid < N - THREAD_NUM
        then [(6 * THREAD_NUM - N + tid, 2 * THREAD_NUM + tid)] else [])"

definition status_read_thread :: "u32 list \<Rightarrow> int \<Rightarrow> u32 list \<Rightarrow> u32 list option" where
  "status_read_thread st tid status =
     for_each (\<lambda>(i, j) status. do { v \<leftarrow> rd st j; wr status i v })
       (status_read_idx tid) status"

definition status_read :: "u32 list \<Rightarrow> u32 list \<Rightarrow> u32 list option" where
  "status_read status st = for_each (status_read_thread st) lanes status"

definition status_write_idx :: "int \<Rightarrow> (int \<times> int) list" where
  "status_write_idx tid =
     [(LARGE_SIZE - N + tid, tid),
      (LARGE_SIZE - N + THREAD_NUM + tid, THREAD_NUM + tid)]
     @ (if tid < N - THREAD_NUM
        then [(6 * THREAD_NUM - N + tid, 2 * THREAD_NUM + tid)] else [])"

definition status_write_thread :: "u32 list \<Rightarrow> int \<Rightarrow> u32 list \<Rightarrow> u32 list option" where
  "status_write_thread status tid st =
     for_each (\<lambda>(i, j) st. do { v \<leftarrow> rd status i; wr st j v })
       (status_write_idx tid) st"

definition status_write :: "u32 list \<Rightarrow> u32 list \<Rightarrow> u32 list option" where
  "status_write st status = for_each (status_write_thread status) lanes st"

subsection \<open>One phase\<close>

text \<open>
  The four phases of the loop body have the same shape,
  \<^verbatim>\<open>r = para_rec(status[a], status[b], status[c], bid); status[w] = r;
  o = temper(r, status[t], bid); d_data[k] = o;\<close>
  and differ in the index expressions. A phase is given by the five indices
  \<open>(a, b, c, w, t)\<close> into \<open>status\<close> of each lane, the index \<open>k\<close> into
  \<^verbatim>\<open>d_data\<close>, and the tempering function.
\<close>

type_synonym taps = "int \<times> int \<times> int \<times> int \<times> int"

definition phase ::
  "(device \<Rightarrow> u32 \<Rightarrow> u32 \<Rightarrow> nat \<Rightarrow> u32 option) \<Rightarrow> device \<Rightarrow> nat \<Rightarrow> (int \<Rightarrow> taps) \<Rightarrow> (int \<Rightarrow> int)
     \<Rightarrow> u32 list \<times> u32 list \<Rightarrow> (u32 list \<times> u32 list) option" where
  "phase tmp dev bid ix k = (\<lambda>(status, d_data). do {
     rs \<leftarrow> all_lanes (\<lambda>tid. case ix tid of (a, b, c, w, t) \<Rightarrow> do {
             X1 \<leftarrow> rd status a;
             X2 \<leftarrow> rd status b;
             Y \<leftarrow> rd status c;
             para_rec dev X1 X2 Y bid });
     status \<leftarrow> for_each (\<lambda>tid status. case ix tid of (a, b, c, w, t) \<Rightarrow>
                 wr status w (rs ! nat tid)) lanes status;
     os \<leftarrow> all_lanes (\<lambda>tid. case ix tid of (a, b, c, w, t) \<Rightarrow> do {
             T \<leftarrow> rd status t;
             tmp dev (rs ! nat tid) T bid });
     d_data \<leftarrow> for_each (\<lambda>tid d_data. wr d_data (k tid) (os ! nat tid)) lanes d_data;
     Some (status, d_data)
   })"

subsection \<open>The index expressions of the two kernels\<close>

text \<open>\<^verbatim>\<open>%\<close> on C integers truncates towards zero: \<^term>\<open>(smod)\<close>.\<close>

definition uint32_taps1 :: "int \<Rightarrow> int \<Rightarrow> taps" where
  "uint32_taps1 pos tid =
     (LARGE_SIZE - N + tid,
      LARGE_SIZE - N + tid + 1,
      LARGE_SIZE - N + tid + pos,
      tid,
      LARGE_SIZE - N + tid + pos - 1)"

definition uint32_taps2 :: "int \<Rightarrow> int \<Rightarrow> taps" where
  "uint32_taps2 pos tid =
     ((5 * THREAD_NUM - N + tid) smod LARGE_SIZE,
      (5 * THREAD_NUM - N + tid + 1) smod LARGE_SIZE,
      (5 * THREAD_NUM - N + tid + pos) smod LARGE_SIZE,
      tid + THREAD_NUM,
      (5 * THREAD_NUM - N + tid + pos - 1) smod LARGE_SIZE)"

definition uint32_taps3 :: "int \<Rightarrow> int \<Rightarrow> taps" where
  "uint32_taps3 pos tid =
     (6 * THREAD_NUM - N + tid,
      6 * THREAD_NUM - N + tid + 1,
      6 * THREAD_NUM - N + tid + pos,
      tid + 2 * THREAD_NUM,
      tid + pos - 1 + 6 * THREAD_NUM - N)"

definition uint32_taps4 :: "int \<Rightarrow> int \<Rightarrow> taps" where
  "uint32_taps4 pos tid =
     (3 * THREAD_NUM - N + tid,
      3 * THREAD_NUM - N + tid + 1,
      3 * THREAD_NUM - N + tid + pos,
      tid + 3 * THREAD_NUM,
      tid + pos - 1 + 3 * THREAD_NUM - N)"

definition single_taps1 :: "int \<Rightarrow> int \<Rightarrow> taps" where
  "single_taps1 pos tid =
     (LARGE_SIZE - N + tid,
      LARGE_SIZE - N + tid + 1,
      LARGE_SIZE - N + tid + pos,
      tid,
      LARGE_SIZE - N + tid + pos - 1)"

definition single_taps2 :: "int \<Rightarrow> int \<Rightarrow> taps" where
  "single_taps2 pos tid =
     (5 * THREAD_NUM - N + tid,
      5 * THREAD_NUM - N + tid + 1,
      5 * THREAD_NUM - N + tid + pos,
      tid + THREAD_NUM,
      5 * THREAD_NUM - N + tid + pos - 1)"

definition single_taps3 :: "int \<Rightarrow> int \<Rightarrow> taps" where
  "single_taps3 pos tid =
     ((6 * THREAD_NUM - N + tid) smod LARGE_SIZE,
      (6 * THREAD_NUM - N + tid + 1) smod LARGE_SIZE,
      (6 * THREAD_NUM - N + tid + pos) smod LARGE_SIZE,
      tid + 2 * THREAD_NUM,
      (tid + pos - 1 + 6 * THREAD_NUM - N) smod LARGE_SIZE)"

definition single_taps4 :: "int \<Rightarrow> int \<Rightarrow> taps" where
  "single_taps4 pos tid =
     (3 * THREAD_NUM - N + tid,
      3 * THREAD_NUM - N + tid + 1,
      3 * THREAD_NUM - N + tid + pos,
      tid + 3 * THREAD_NUM,
      tid + pos - 1 + 3 * THREAD_NUM - N)"

text \<open>All five indices of a lane lie inside the shared buffer.\<close>

definition taps_in_bounds :: "taps \<Rightarrow> bool" where
  "taps_in_bounds ix = (case ix of (a, b, c, w, t) \<Rightarrow>
     list_all (\<lambda>i. 0 \<le> i \<and> i < LARGE_SIZE) [a, b, c, w, t])"

text \<open>Every copy of a lane lies inside the shared buffer and inside the saved state.\<close>

definition copies_in_bounds :: "(int \<times> int) list \<Rightarrow> bool" where
  "copies_in_bounds cs =
     list_all (\<lambda>(i, j). 0 \<le> i \<and> i < LARGE_SIZE \<and> 0 \<le> j \<and> j < N) cs"

section \<open>The kernels\<close>

text \<open>
  The loop \<^verbatim>\<open>for (int i = 0; i < size; i += LARGE_SIZE)\<close> runs its body for the
  values of \<open>i\<close> listed by \<open>batch_starts size 0\<close>. The counter is a C
  \<^verbatim>\<open>int\<close>: when \<open>i + LARGE_SIZE\<close> leaves its range the increment is undefined
  and the loop has no result. (The kernel argument \<^verbatim>\<open>size\<close> is written \<open>sz\<close>.)
\<close>

function batch_starts :: "int \<Rightarrow> int \<Rightarrow> int list option" where
  "batch_starts sz i =
     (if i < sz
      then (if int_ok (i + LARGE_SIZE)
            then map_option ((#) i) (batch_starts sz (i + LARGE_SIZE))
            else None)
      else Some [])"
  by pat_completeness auto
termination
  by (relation "measure (\<lambda>(sz, i). nat (sz - i))") (auto simp: LARGE_SIZE_def THREAD_NUM_def)

declare batch_starts.simps [simp del]

definition uint32_batch ::
  "device \<Rightarrow> nat \<Rightarrow> int \<Rightarrow> int \<Rightarrow> int \<Rightarrow> u32 list \<times> u32 list \<Rightarrow> (u32 list \<times> u32 list) option" where
  "uint32_batch dev bid pos sz i s = do {
     s \<leftarrow> phase temper dev bid (uint32_taps1 pos) (\<lambda>tid. sz * int bid + i + tid) s;
     s \<leftarrow> phase temper dev bid (uint32_taps2 pos) (\<lambda>tid. sz * int bid + THREAD_NUM + i + tid) s;
     s \<leftarrow> phase temper dev bid (uint32_taps3 pos) (\<lambda>tid. sz * int bid + 2 * THREAD_NUM + i + tid) s;
     phase temper dev bid (uint32_taps4 pos) (\<lambda>tid. sz * int bid + 3 * THREAD_NUM + i + tid) s
   }"

definition single_batch ::
  "device \<Rightarrow> nat \<Rightarrow> int \<Rightarrow> int \<Rightarrow> int \<Rightarrow> u32 list \<times> u32 list \<Rightarrow> (u32 list \<times> u32 list) option" where
  "single_batch dev bid pos sz i s = do {
     s \<leftarrow> phase temper_single dev bid (single_taps1 pos) (\<lambda>tid. sz * int bid + i + tid) s;
     s \<leftarrow> phase temper_single dev bid (single_taps2 pos) (\<lambda>tid. sz * int bid + THREAD_NUM + i + tid) s;
     s \<leftarrow> phase temper_single dev bid (single_taps3 pos) (\<lambda>tid. sz * int bid + 2 * THREAD_NUM + i + tid) s;
     phase temper_single dev bid (single_taps4 pos) (\<lambda>tid. sz * int bid + 3 * THREAD_NUM + i + tid) s
   }"

text \<open>
  One block of a kernel launch. \<open>status\<close> is the content of the shared array when the
  block starts (it is not initialised by the source), \<open>st\<close> is
  \<^verbatim>\<open>d_status[bid].status\<close>, \<open>d_data\<close> the whole output array. The result is the
  saved state and the output array. \<^verbatim>\<open>int pos = pos_tbl[bid]\<close> converts an unsigned
  word to \<^verbatim>\<open>int\<close>.
\<close>

definition mtgp32_uint32_kernel ::
  "device \<Rightarrow> nat \<Rightarrow> u32 list \<Rightarrow> u32 list \<Rightarrow> u32 list \<Rightarrow> int \<Rightarrow> (u32 list \<times> u32 list) option" where
  "mtgp32_uint32_kernel dev bid status st d_data sz = do {
     p \<leftarrow> rdn (pos_tbl dev) bid;
     let pos = sint p;
     status \<leftarrow> status_read status st;
     starts \<leftarrow> batch_starts sz 0;
     (status, d_data) \<leftarrow> for_each (uint32_batch dev bid pos sz) starts (status, d_data);
     st \<leftarrow> status_write st status;
     Some (st, d_data)
   }"

definition mtgp32_single_kernel ::
  "device \<Rightarrow> nat \<Rightarrow> u32 list \<Rightarrow> u32 list \<Rightarrow> u32 list \<Rightarrow> int \<Rightarrow> (u32 list \<times> u32 list) option" where
  "mtgp32_single_kernel dev bid status st d_data sz = do {
     p \<leftarrow> rdn (pos_tbl dev) bid;
     let pos = sint p;
     status \<leftarrow> status_read status st;
     starts \<leftarrow> batch_starts sz 0;
     (status, d_data) \<leftarrow> for_each (single_batch dev bid pos sz) starts (status, d_data);
     st \<leftarrow> status_write st status;
     Some (st, d_data)
   }"

section \<open>The host side\<close>

text \<open>
  \<^verbatim>\<open>main\<close> accepts \<open>block_num\<close> between 1 and \<^verbatim>\<open>BLOCK_NUM_MAX\<close> and rounds
  \<open>num_data\<close> up to a multiple of \<open>num_unit = LARGE_SIZE * block_num\<close>. Both are
  C \<^verbatim>\<open>int\<close>s: a sum that leaves the range of \<open>int\<close> is undefined.
\<close>

definition main_num_data :: "int \<Rightarrow> int \<Rightarrow> error + int" where
  "main_num_data num_data block_num =
     (if block_num < 1 \<or> block_num > int BLOCK_NUM_MAX then Inl BadBlockNum
      else
        let num_unit = LARGE_SIZE * block_num;
            r = num_data smod num_unit
        in if r \<noteq> 0
           then (if int_ok (num_data + num_unit) \<and> int_ok (num_data + num_unit - r)
                 then Inr (num_data + num_unit - r) else Inl IntOverflow)
           else Inr num_data)"

text \<open>
  \<^verbatim>\<open>make_uint32_random\<close> allocates the output and launches \<open>block_num\<close> blocks
  with \<^verbatim>\<open>size = num_data / block_num\<close>; block \<open>bid\<close> works on \<open>d_status[bid]\<close>.
  The blocks are run one after the other.
\<close>

definition make_uint32_random ::
  "bool \<Rightarrow> device \<Rightarrow> u32 list \<Rightarrow> u32 list list \<Rightarrow> int \<Rightarrow> int \<Rightarrow> error + (u32 list list \<times> u32 list)" where
  "make_uint32_random heap_ok dev status d_status num_data block_num =
     (if \<not> heap_ok then Inl AllocFailure
      else
        case for_each (\<lambda>bid (d_status, d_data). do {
               st \<leftarrow> rdn d_status bid;
               (st, d_data) \<leftarrow>
                 mtgp32_uint32_kernel dev bid status st d_data (num_data sdiv block_num);
               Some (d_status[bid := st], d_data) })
             [0..<nat block_num] (d_status, replicate (nat num_data) 0)
        of None \<Rightarrow> Inl OutOfBounds
         | Some r \<Rightarrow> Inr r)"

section \<open>A launch on the device memory\<close>

text \<open>
  \<^verbatim>\<open>main\<close> allocates \<^verbatim>\<open>d_status\<close> as one array of \<open>block_num\<close> structs of
  \<^verbatim>\<open>N\<close> words each, so in device memory the struct of stream \<open>bid\<close> starts at
  word \<open>bid * N\<close> and is followed by the struct of stream \<open>bid + 1\<close>. In C an index
  of \<^verbatim>\<open>N\<close> or more into \<^verbatim>\<open>d_status[bid].status\<close> is undefined, which is what
  the kernels above say when \<open>st\<close> has exactly \<^verbatim>\<open>N\<close> words; the address the
  device computes for it is that of a word of the following struct. \<open>launch_uint32\<close>
  follows the addresses: \<open>mem\<close> is the memory from the start of \<^verbatim>\<open>d_status\<close> on
  (the structs, then whatever follows the allocation), block \<open>bid\<close> is given the
  memory from its own struct on, and the blocks of the launch run in the order of
  \<open>bid\<close>. In the same way a list \<open>status\<close> longer than \<^verbatim>\<open>LARGE_SIZE\<close> stands
  for the shared array and the shared memory behind it.
\<close>

definition launch_uint32 ::
  "device \<Rightarrow> u32 list \<Rightarrow> nat \<Rightarrow> u32 list \<Rightarrow> u32 list \<Rightarrow> int \<Rightarrow> (u32 list \<times> u32 list) option" where
  "launch_uint32 dev status block_num mem d_data sz =
     for_each (\<lambda>bid (mem, d_data). do {
         (st, d_data) \<leftarrow>
           mtgp32_uint32_kernel dev bid status (drop (bid * nat N) mem) d_data sz;
         Some (take (bid * nat N) mem @ st, d_data) })
       [0..<block_num] (mem, d_data)"

text \<open>
  The output array is stream-major: the \<open>sz\<close> words of stream \<open>bid\<close> start at
  \<open>sz * bid\<close>.
\<close>

definition stream_output :: "u32 list \<Rightarrow> int \<Rightarrow> nat \<Rightarrow> u32 list" where
  "stream_output d_data sz bid = take (nat sz) (drop (nat sz * bid) d_data)"

text \<open>
  Two launches with sizes \<open>A\<close> and \<open>B\<close>, the second on the memory the first one
  left, each with a fresh output array; and one launch with size \<open>A + B\<close>.
\<close>

definition launch_A_then_B ::
  "device \<Rightarrow> u32 list \<Rightarrow> nat \<Rightarrow> u32 list \<Rightarrow> int \<Rightarrow> int
     \<Rightarrow> (u32 list \<times> u32 list \<times> u32 list) option" where
  "launch_A_then_B dev status block_num mem A B = do {
     (mem, d_A) \<leftarrow> launch_uint32 dev status block_num mem (replicate (block_num * nat A) 0) A;
     (mem, d_B) \<leftarrow> launch_uint32 dev status block_num mem (replicate (block_num * nat B) 0) B;
     Some (mem, d_A, d_B)
   }"

definition launch_A_plus_B ::
  "device \<Rightarrow> u32 list \<Rightarrow> nat \<Rightarrow> u32 list \<Rightarrow> int \<Rightarrow> int \<Rightarrow> (u32 list \<times> u32 list) option" where
  "launch_A_plus_B dev status block_num mem A B =
     launch_uint32 dev status block_num mem (replicate (block_num * nat (A + B)) 0) (A + B)"

section \<open>Sample inputs\<close>

text \<open>
  A parameter set with 16-entry tables and in-range scalars, and a copy of it whose
  tap position and shifts are outside the ranges of the specification.
\<close>

definition example_params :: mtgp32_params_fast_t where
  "example_params = \<lparr>p_pos = 84, p_sh1 = 12, p_sh2 = 4,
     tbl = [0x00000000, 0x71588353, 0xdfa887c1, 0xaef00492,
            0x4ba66c6e, 0x3afeefbd, 0x940eebaf, 0xe556687c,
            0xcfb5a000, 0xbeed2353, 0x101d27c1, 0x6145a492,
            0x8413cc6e, 0xf54b4fbd, 0x5bbb4baf, 0x2ae3c87c],
     tmp_tbl = [0x00000000, 0x200040bb, 0x1082c61e, 0x308286a5,
                0x10021c03, 0x30025cb8, 0x0080da1d, 0x20809aa6,
                0x0003f0b9, 0x2003b002, 0x108136a7, 0x3081761c,
                0x1001ecba, 0x3001ac01, 0x00832aa4, 0x20836a1f],
     flt_tmp_tbl = [0x3f800000, 0x3f900020, 0x3f884163, 0x3f984143,
                    0x3f88010e, 0x3f98012e, 0x3f80406d, 0x3f90404d,
                    0x3f8001f8, 0x3f9001d8, 0x3f88409b, 0x3f9840bb,
                    0x3f8800f6, 0x3f9800d6, 0x3f804195, 0x3f9041b5]\<rparr>"

definition unchecked_params :: mtgp32_params_fast_t where
  "unchecked_params = example_params\<lparr>p_pos := 0, p_sh1 := 0, p_sh2 := 40\<rparr>"

text \<open>
  Two streams with the sample parameters: the loaded device, a memory holding the state
  of stream 0 (726 words), the state of stream 1 (726 words) and 42 words behind the
  allocation, and a shared memory of 2048 words.
\<close>

definition example_dev :: device where
  "example_dev = projr (load_params True [example_params, example_params] 2 device0)"

definition example_mem :: "u32 list" where
  "example_mem = replicate 726 1 @ replicate 726 2 @ replicate 42 0"

definition example_shared :: "u32 list" where
  "example_shared = replicate 2048 0"

section \<open>Facts about the loaders, the lanes and the loop\<close>

lemma load_params_Inr:
  assumes "load_params heap_ok params block_num dev0 = Inr dev"
  shows "block_num \<le> length params"
    and "sh1_tbl dev = memcpy_to (sh1_tbl dev0) (map (\<lambda>i. word_of_int (p_sh1 (params ! i))) [0..<block_num])"
    and "sh2_tbl dev = memcpy_to (sh2_tbl dev0) (map (\<lambda>i. word_of_int (p_sh2 (params ! i))) [0..<block_num])"
    and "pos_tbl dev = memcpy_to (pos_tbl dev0) (map (\<lambda>i. word_of_int (p_pos (params ! i))) [0..<block_num])"
    and "tex_param_ref dev = map (\<lambda>k. tbl (params ! (k div TBL_SIZE)) ! (k mod TBL_SIZE)) [0..<block_num * TBL_SIZE]"
    and "tex_temper_ref dev = map (\<lambda>k. tmp_tbl (params ! (k div TBL_SIZE)) ! (k mod TBL_SIZE)) [0..<block_num * TBL_SIZE]"
    and "tex_single_ref dev = map (\<lambda>k. flt_tmp_tbl (params ! (k div TBL_SIZE)) ! (k mod TBL_SIZE)) [0..<block_num * TBL_SIZE]"
  using assms
  by (auto simp: load_params_def make_constant_def make_texture_def Let_def
      split: sum.splits if_splits)

lemma rdn_memcpy_to:
  "i < length src \<Longrightarrow> rdn (memcpy_to dst src) i = Some (src ! i)"
  by (simp add: rdn_def memcpy_to_def nth_append)

lemma tex_slot:
  assumes "bid < block_num" "j < 16"
  shows "tex1Dfetch (map (\<lambda>k. f (k div TBL_SIZE) (k mod TBL_SIZE)) [0..<block_num * TBL_SIZE]) (bid * 16 + j)
         = Some (f bid j)"
proof -
  have "bid * 16 + j < block_num * 16"
    using assms by arith
  then show ?thesis using assms by (simp add: tex1Dfetch_def rdn_def TBL_SIZE_def)
qed

lemma low4_less: "unat ((w :: u32) AND 0xf) < 16"
proof -
  have "unat (w AND 0xf) \<le> unat (0xf :: u32)"
    by (rule word_and_le1 [THEN word_le_nat_alt [THEN iffD1]])
  then show ?thesis by simp
qed

lemma unat_shift: "1 \<le> s \<Longrightarrow> s \<le> 31 \<Longrightarrow> unat (word_of_int s :: u32) = nat s"
proof -
  assume a: "1 \<le> s" "s \<le> 31"
  then have "word_of_int s = (of_nat (nat s) :: u32)" by simp
  moreover have "nat s < 2 ^ 32" using a by simp
  ultimately show ?thesis by (simp add: unat_of_nat)
qed

lemma load_params_tbl_len:
  assumes "load_params heap_ok params block_num dev0 = Inr dev" "bid < block_num"
  shows "TBL_SIZE \<le> length (flt_tmp_tbl (params ! bid))"
proof -
  have "\<not> list_ex (\<lambda>i. length (tbl (params ! i)) < TBL_SIZE
                             \<or> length (tmp_tbl (params ! i)) < TBL_SIZE
                             \<or> length (flt_tmp_tbl (params ! i)) < TBL_SIZE) [0..<block_num]"
    using assms(1)
    by (auto simp: load_params_def make_constant_def make_texture_def Let_def
        split: sum.splits if_splits)
  moreover have "bid \<in> set [0..<block_num]" using assms(2) by simp
  ultimately have "\<not> length (flt_tmp_tbl (params ! bid)) < TBL_SIZE"
    unfolding list_ex_iff by blast
  then show ?thesis by simp
qed

lemma exp_field_range:
  fixes r :: u32
  assumes "drop_bit 23 r = 0x7F"
  shows "0x3F800000 \<le> r \<and> r < 0x40000000"
proof -
  have "unat (drop_bit 23 r) = 127" using assms by simp
  then have "unat r div 2 ^ 23 = 127" by (simp add: drop_bit_eq_div unat_div)
  then have "unat r div 8388608 = 127" by simp
  then have "1065353216 \<le> unat r \<and> unat r < 1073741824" by arith
  then show ?thesis by (simp add: word_le_nat_alt word_less_nat_alt)
qed

lemma ieee_single_unit_range:
  fixes r :: u32
  assumes "drop_bit 23 r = 0x7F"
  shows "case ieee_single r of None \<Rightarrow> False | Some v \<Rightarrow> 1 \<le> v \<and> v < 2"
proof -
  have e: "unat (drop_bit 23 r AND 0xFF) = 127" by (simp add: assms)
  have "drop_bit 8 (drop_bit 23 r) = drop_bit 31 r" by (simp add: drop_bit_drop_bit)
  then have s: "drop_bit 31 r = 0" by (simp add: assms)
  have "unat (r AND 0x7FFFFF) \<le> unat (0x7FFFFF :: u32)"
    by (rule word_and_le1 [THEN word_le_nat_alt [THEN iffD1]])
  then have "unat (r AND 0x7FFFFF) < 8388608" by simp
  then have "real (unat (r AND 0x7FFFFF)) < real 8388608" by (simp only: of_nat_less_iff)
  then have m: "real (unat (r AND 0x7FFFFF)) < 2 ^ 23" by simp
  have "ieee_single r = Some (1 + real (unat (r AND 0x7FFFFF)) / 2 ^ 23)"
    by (simp add: ieee_single_def Let_def e s)
  moreover have "1 + real (unat (r AND 0x7FFFFF)) / 2 ^ 23 < 2" using m by simp
  moreover have "1 \<le> 1 + real (unat (r AND 0x7FFFFF)) / 2 ^ 23"
    using of_nat_0_le_iff [of "unat (r AND 0x7FFFFF)", where 'a = real] by simp
  ultimately show ?thesis by simp
qed

lemma load_params_ok:
  assumes "block_num \<le> length params" "block_num \<le> BLOCK_NUM_MAX"
    and "\<forall>i<block_num. TBL_SIZE \<le> length (tbl (params ! i))
            \<and> TBL_SIZE \<le> length (tmp_tbl (params ! i))
            \<and> TBL_SIZE \<le> length (flt_tmp_tbl (params ! i))"
  shows "\<not> isl (load_params True params block_num dev)"
proof -
  have "\<not> list_ex (\<lambda>i. length (tbl (params ! i)) < TBL_SIZE
                             \<or> length (tmp_tbl (params ! i)) < TBL_SIZE
                             \<or> length (flt_tmp_tbl (params ! i)) < TBL_SIZE) [0..<block_num]"
    using assms(3) by (auto simp: list_ex_iff not_less)
  then show ?thesis
    using assms(1,2) by (simp add: load_params_def make_constant_def make_texture_def Let_def)
qed

lemma tex_slot_tbl:
  assumes "bid < block_num" "j < TBL_SIZE"
  shows "tex1Dfetch (map (\<lambda>k. f (k div TBL_SIZE) (k mod TBL_SIZE)) [0..<block_num * TBL_SIZE]) (bid * TBL_SIZE + j)
         = Some (f bid j)"
  using tex_slot [of bid block_num j f] assms by (simp add: TBL_SIZE_def)

lemma example_loaded:
  "load_params True [example_params] 1 device0
   = Inr (projr (load_params True [example_params] 1 device0))"
proof -
  have "\<not> isl (load_params True [example_params] 1 device0)"
    by (rule load_params_ok) (simp_all add: BLOCK_NUM_MAX_def TBL_SIZE_def example_params_def)
  then show ?thesis by (cases "load_params True [example_params] 1 device0") auto
qed

lemma for_each_None:
  "x \<in> set xs \<Longrightarrow> (\<And>s. f x s = None) \<Longrightarrow> for_each f xs s = None"
  by (induction xs arbitrary: s) (auto split: option.splits)

lemma those_None:
  "x \<in> set xs \<Longrightarrow> f x = None \<Longrightarrow> those (map f xs) = None"
  by (induction xs) (auto split: option.splits)

lemma all_lanes_None:
  "tid \<in> set lanes \<Longrightarrow> f tid = None \<Longrightarrow> all_lanes f = None"
  unfolding all_lanes_def by (rule those_None)

lemma lane_mem: "0 \<le> tid \<Longrightarrow> tid < THREAD_NUM \<Longrightarrow> tid \<in> set lanes"
proof -
  assume a: "0 \<le> tid" "tid < THREAD_NUM"
  then have "nat tid \<in> set [0..<nat THREAD_NUM]" by simp
  then have "int (nat tid) \<in> set lanes" unfolding lanes_def by (simp only: set_map image_eqI)
  with a show ?thesis by simp
qed

lemma status_read_thread_214:
  assumes "length st \<le> nat N"
  shows "status_read_thread st 214 status = None"
  using assms
  by (simp add: status_read_thread_def status_read_idx_def N_def THREAD_NUM_def
      LARGE_SIZE_def rd_def wr_def split: option.splits)

lemma status_write_thread_214:
  assumes "length status \<le> nat LARGE_SIZE"
  shows "status_write_thread status 214 st = None"
  using assms
  by (simp add: status_write_thread_def status_write_idx_def N_def THREAD_NUM_def
      LARGE_SIZE_def rd_def wr_def split: option.splits)

lemma status_read_None: "length st \<le> nat N \<Longrightarrow> status_read status st = None"
  unfolding status_read_def
  by (rule for_each_None [where x = 214]) (simp_all add: lane_mem THREAD_NUM_def status_read_thread_214)

lemma status_write_None: "length status \<le> nat LARGE_SIZE \<Longrightarrow> status_write st status = None"
  unfolding status_write_def
  by (rule for_each_None [where x = 214]) (simp_all add: lane_mem THREAD_NUM_def status_write_thread_214)

lemma phase_None:
  assumes "0 \<le> tid" "tid < THREAD_NUM" "ix tid = (a, b, c, w, t)" "rd status a = None"
  shows "phase tmp dev bid ix k (status, d_data) = None"
proof -
  have "all_lanes (\<lambda>tid. case ix tid of (a, b, c, w, t) \<Rightarrow> do {
             X1 \<leftarrow> rd status a;
             X2 \<leftarrow> rd status b;
             Y \<leftarrow> rd status c;
             para_rec dev X1 X2 Y bid }) = None"
    by (rule all_lanes_None [where tid = tid]) (simp_all add: assms lane_mem)
  then show ?thesis by (simp add: phase_def)
qed

lemma uint32_phase3_None:
  assumes "length status \<le> nat LARGE_SIZE"
  shows "phase temper dev bid (uint32_taps3 pos) k (status, d_data) = None"
proof (rule phase_None [where tid = 255])
  show "uint32_taps3 pos 255 = (6 * THREAD_NUM - N + 255, 6 * THREAD_NUM - N + 255 + 1,
     6 * THREAD_NUM - N + 255 + pos, 255 + 2 * THREAD_NUM, 255 + pos - 1 + 6 * THREAD_NUM - N)"
    by (simp add: uint32_taps3_def)
  show "rd status (6 * THREAD_NUM - N + 255) = None"
    using assms by (simp add: rd_def THREAD_NUM_def N_def LARGE_SIZE_def)
qed (simp_all add: THREAD_NUM_def)

lemma for_each_inv:
  assumes "for_each f xs s = Some s'" "P s" "\<And>x s s'. f x s = Some s' \<Longrightarrow> P s \<Longrightarrow> P s'"
  shows "P s'"
  using assms by (induction xs arbitrary: s) (auto split: option.splits)

lemma wr_length: "wr xs i v = Some ys \<Longrightarrow> length ys = length xs"
  by (auto simp: wr_def split: if_splits)

lemma phase_length:
  assumes "phase tmp dev bid ix k (status, d_data) = Some (status', d_data')"
  shows "length status' = length status"
proof -
  from assms obtain rs where
    w: "for_each (\<lambda>tid status. case ix tid of (a, b, c, w, t) \<Rightarrow>
                 wr status w (rs ! nat tid)) lanes status = Some status'"
    by (auto simp: phase_def split: Option.bind_splits)
  show ?thesis
    by (rule for_each_inv [OF w, where P = "\<lambda>s. length s = length status"])
       (auto split: prod.splits dest: wr_length)
qed

lemma uint32_batch_None:
  assumes "length status \<le> nat LARGE_SIZE"
  shows "uint32_batch dev bid pos sz i (status, d_data) = None"
proof (cases "phase temper dev bid (uint32_taps1 pos) (\<lambda>tid. sz * int bid + i + tid) (status, d_data)")
  case None
  then show ?thesis by (simp add: uint32_batch_def)
next
  case (Some s1)
  obtain status1 d1 where s1: "s1 = (status1, d1)" by (cases s1)
  have l1: "length status1 \<le> nat LARGE_SIZE"
    using phase_length [OF Some [unfolded s1]] assms by simp
  show ?thesis
  proof (cases "phase temper dev bid (uint32_taps2 pos) (\<lambda>tid. sz * int bid + THREAD_NUM + i + tid) s1")
    case None
    then show ?thesis using Some by (simp add: uint32_batch_def)
  next
    case s2: (Some s2)
    obtain status2 d2 where s2': "s2 = (status2, d2)" by (cases s2)
    have l2: "length status2 \<le> nat LARGE_SIZE"
      using phase_length [OF s2 [unfolded s1 s2']] l1 by simp
    have "phase temper dev bid (uint32_taps3 pos) (\<lambda>tid. sz * int bid + 2 * THREAD_NUM + i + tid) s2 = None"
      unfolding s2' using l2 by (rule uint32_phase3_None)
    then show ?thesis using Some s2 by (simp add: uint32_batch_def)
  qed
qed

lemma round_up_div:
  fixes a u :: int
  assumes "0 < u"
  shows "u * ((a + u - 1) div u) = (if a mod u = 0 then a else a + u - a mod u)"
proof (cases "a mod u = 0")
  case True
  have m: "u * (a div u) = a"
    using True mult_div_mod_eq [of u a] by simp
  then have "a + u - 1 = u * (a div u) + (u - 1)" by simp
  then have "(a + u - 1) div u = a div u"
    using assms by (intro int_div_pos_eq [where r = "u - 1"]) simp_all
  then show ?thesis using True m by simp
next
  case False
  have "0 \<le> a mod u" and b2: "a mod u < u" using assms by simp_all
  with False have b: "0 < a mod u" "a mod u < u" by simp_all
  have "a + u - 1 = u * (a div u + 1) + (a mod u - 1)"
    by (simp add: algebra_simps)
  then have "(a + u - 1) div u = a div u + 1"
    using b by (intro int_div_pos_eq [where r = "a mod u - 1"]) simp_all
  then show ?thesis using False
    by (simp add: algebra_simps minus_mod_eq_mult_div [symmetric])
qed

lemma in_range_smod:
  "0 \<le> a \<Longrightarrow> 0 \<le> a smod LARGE_SIZE \<and> a smod LARGE_SIZE < LARGE_SIZE"
  by (simp add: smod_mod_positive LARGE_SIZE_def THREAD_NUM_def)

lemma those_map_Some:
  "(\<And>x. x \<in> set xs \<Longrightarrow> f x \<noteq> None) \<Longrightarrow> \<exists>ys. those (map f xs) = Some ys"
  by (induction xs) (auto split: option.splits)

lemma all_lanes_Some:
  "(\<And>tid. tid \<in> set lanes \<Longrightarrow> f tid \<noteq> None) \<Longrightarrow> \<exists>rs. all_lanes f = Some rs"
  unfolding all_lanes_def by (rule those_map_Some)

lemma for_each_wr_Some:
  assumes "\<And>x. x \<in> set xs \<Longrightarrow> 0 \<le> g x \<and> g x < int (length s)"
  shows "\<exists>s'. for_each (\<lambda>x s. wr s (g x) (h x)) xs s = Some s' \<and> length s' = length s"
  using assms
proof (induction xs arbitrary: s)
  case Nil
  then show ?case by simp
next
  case (Cons x xs)
  have "wr s (g x) (h x) = Some (s[nat (g x) := h x])"
    using Cons.prems [of x] by (simp add: wr_def)
  moreover have "\<exists>s'. for_each (\<lambda>x s. wr s (g x) (h x)) xs (s[nat (g x) := h x]) = Some s'
      \<and> length s' = length (s[nat (g x) := h x])"
    by (rule Cons.IH) (use Cons.prems in simp)
  ultimately show ?case by simp
qed

lemma lane_range: "tid \<in> set lanes \<Longrightarrow> 0 \<le> tid \<and> tid < THREAD_NUM"
  by (auto simp: lanes_def)

lemma phase_defined:
  assumes len: "length status = nat LARGE_SIZE"
    and ib: "\<And>tid. tid \<in> set lanes \<Longrightarrow> taps_in_bounds (ix tid)"
    and pr: "\<And>X1 X2 Y. para_rec dev X1 X2 Y bid \<noteq> None"
    and tm: "\<And>V T. tmp dev V T bid \<noteq> None"
    and kk: "\<And>tid. tid \<in> set lanes \<Longrightarrow> 0 \<le> k tid \<and> k tid < int (length d_data)"
  shows "phase tmp dev bid ix k (status, d_data) \<noteq> None"
proof -
  have L: "int (length status) = LARGE_SIZE" using len by (simp add: LARGE_SIZE_def THREAD_NUM_def)
  have "\<exists>rs. all_lanes (\<lambda>tid. case ix tid of (a, b, c, w, t) \<Rightarrow> do {
             X1 \<leftarrow> rd status a;
             X2 \<leftarrow> rd status b;
             Y \<leftarrow> rd status c;
             para_rec dev X1 X2 Y bid }) = Some rs"
  proof (rule all_lanes_Some)
    fix tid assume "tid \<in> set lanes"
    from ib [OF this] obtain a b c w t where ix: "ix tid = (a, b, c, w, t)"
      and "0 \<le> a" "a < LARGE_SIZE" "0 \<le> b" "b < LARGE_SIZE" "0 \<le> c" "c < LARGE_SIZE"
      by (cases "ix tid") (auto simp: taps_in_bounds_def)
    then obtain X1 X2 Y where "rd status a = Some X1" "rd status b = Some X2" "rd status c = Some Y"
      using L by (auto simp: rd_def)
    then show "(case ix tid of (a, b, c, w, t) \<Rightarrow> do {
             X1 \<leftarrow> rd status a;
             X2 \<leftarrow> rd status b;
             Y \<leftarrow> rd status c;
             para_rec dev X1 X2 Y bid }) \<noteq> None"
      using pr by (simp add: ix)
  qed
  then obtain rs where rs: "all_lanes (\<lambda>tid. case ix tid of (a, b, c, w, t) \<Rightarrow> do {
             X1 \<leftarrow> rd status a;
             X2 \<leftarrow> rd status b;
             Y \<leftarrow> rd status c;
             para_rec dev X1 X2 Y bid }) = Some rs" ..
  have weq: "(\<lambda>tid status. case ix tid of (a, b, c, w, t) \<Rightarrow> wr status w (rs ! nat tid))
      = (\<lambda>tid status. wr status (fst (snd (snd (snd (ix tid))))) (rs ! nat tid))"
    by (simp add: fun_eq_iff split: prod.splits)
  have "\<exists>s'. for_each (\<lambda>tid status. wr status (fst (snd (snd (snd (ix tid))))) (rs ! nat tid)) lanes status = Some s'
         \<and> length s' = length status"
  proof (rule for_each_wr_Some)
    fix tid assume "tid \<in> set lanes"
    from ib [OF this] show "0 \<le> fst (snd (snd (snd (ix tid)))) \<and> fst (snd (snd (snd (ix tid)))) < int (length status)"
      unfolding L by (cases "ix tid") (auto simp: taps_in_bounds_def)
  qed
  then obtain status' where w: "for_each (\<lambda>tid status. case ix tid of (a, b, c, w, t) \<Rightarrow>
           wr status w (rs ! nat tid)) lanes status = Some status'"
    and L': "length status' = length status"
    unfolding weq by blast
  have "\<exists>os. all_lanes (\<lambda>tid. case ix tid of (a, b, c, w, t) \<Rightarrow> do {
             T \<leftarrow> rd status' t;
             tmp dev (rs ! nat tid) T bid }) = Some os"
  proof (rule all_lanes_Some)
    fix tid assume "tid \<in> set lanes"
    from ib [OF this] obtain a b c w t where ix: "ix tid = (a, b, c, w, t)"
      and "0 \<le> t" "t < LARGE_SIZE"
      by (cases "ix tid") (auto simp: taps_in_bounds_def)
    then obtain T where "rd status' t = Some T"
      using L L' by (auto simp: rd_def)
    then show "(case ix tid of (a, b, c, w, t) \<Rightarrow> do {
             T \<leftarrow> rd status' t;
             tmp dev (rs ! nat tid) T bid }) \<noteq> None"
      using tm by (simp add: ix)
  qed
  then obtain os where os: "all_lanes (\<lambda>tid. case ix tid of (a, b, c, w, t) \<Rightarrow> do {
             T \<leftarrow> rd status' t;
             tmp dev (rs ! nat tid) T bid }) = Some os" ..
  have "\<exists>d'. for_each (\<lambda>tid d_data. wr d_data (k tid) (os ! nat tid)) lanes d_data = Some d'
         \<and> length d' = length d_data"
    by (rule for_each_wr_Some) (rule kk)
  then obtain d' where d: "for_each (\<lambda>tid d_data. wr d_data (k tid) (os ! nat tid)) lanes d_data = Some d'"
    by blast
  have "phase tmp dev bid ix k (status, d_data) = Some (status', d')"
    by (simp only: phase_def prod.case rs w os d Option.bind.simps)
  then show ?thesis by simp
qed

lemma para_rec_defined:
  assumes "load_params heap_ok params block_num dev0 = Inr dev" and "bid < block_num"
  shows "para_rec dev X1 X2 Y bid \<noteq> None"
proof -
  note L = load_params_Inr [OF assms(1)]
  have s1: "rdn (sh1_tbl dev) bid = Some (word_of_int (p_sh1 (params ! bid)))"
    using assms(2) by (simp add: L(2) rdn_memcpy_to)
  have s2: "rdn (sh2_tbl dev) bid = Some (word_of_int (p_sh2 (params ! bid)))"
    using assms(2) by (simp add: L(3) rdn_memcpy_to)
  have t: "tex1Dfetch (tex_param_ref dev) (bid * 16 + unat (w AND 0xf))
           = Some (tbl (params ! bid) ! unat (w AND 0xf))" for w :: u32
    unfolding L(5) using assms(2) low4_less [of w] by (rule tex_slot)
  show ?thesis by (simp add: para_rec_def Let_def s1 s2 t)
qed

lemma temper_defined:
  assumes "load_params heap_ok params block_num dev0 = Inr dev" and "bid < block_num"
  shows "temper dev V T bid \<noteq> None"
proof -
  note L = load_params_Inr [OF assms(1)]
  have t: "tex1Dfetch (tex_temper_ref dev) (bid * 16 + unat (w AND 0xf))
           = Some (tmp_tbl (params ! bid) ! unat (w AND 0xf))" for w :: u32
    unfolding L(6) using assms(2) low4_less [of w] by (rule tex_slot)
  show ?thesis by (simp add: temper_def Let_def t)
qed

lemma temper_single_defined:
  assumes "load_params heap_ok params block_num dev0 = Inr dev" and "bid < block_num"
  shows "temper_single dev V T bid \<noteq> None"
proof -
  note L = load_params_Inr [OF assms(1)]
  have t: "tex1Dfetch (tex_single_ref dev) (bid * 16 + unat (w AND 0xf))
           = Some (flt_tmp_tbl (params ! bid) ! unat (w AND 0xf))" for w :: u32
    unfolding L(7) using assms(2) low4_less [of w] by (rule tex_slot)
  show ?thesis by (simp add: temper_single_def Let_def t)
qed

lemma phase_None_tap:
  assumes "0 \<le> tid" "tid < THREAD_NUM" "ix tid = (a, b, c, w, t)"
    and "rd status a = None \<or> rd status b = None \<or> rd status c = None"
  shows "phase tmp dev bid ix k (status, d_data) = None"
proof -
  have "all_lanes (\<lambda>tid. case ix tid of (a, b, c, w, t) \<Rightarrow> do {
             X1 \<leftarrow> rd status a;
             X2 \<leftarrow> rd status b;
             Y \<leftarrow> rd status c;
             para_rec dev X1 X2 Y bid }) = None"
  proof (rule all_lanes_None [where tid = tid])
    show "tid \<in> set lanes" using assms(1,2) by (rule lane_mem)
    show "(case ix tid of (a, b, c, w, t) \<Rightarrow> do {
             X1 \<leftarrow> rd status a;
             X2 \<leftarrow> rd status b;
             Y \<leftarrow> rd status c;
             para_rec dev X1 X2 Y bid }) = None"
      using assms(4) by (auto simp: assms(3) split: Option.bind_split)
  qed
  then show ?thesis by (simp add: phase_def)
qed

lemma taps_wrapped_in_bounds:
  assumes "0 \<le> tid" "tid < THREAD_NUM" "1 \<le> pos"
  shows "taps_in_bounds (uint32_taps2 pos tid)" and "taps_in_bounds (single_taps3 pos tid)"
proof -
  have w: "0 \<le> tid + THREAD_NUM" "tid + THREAD_NUM < LARGE_SIZE"
       "0 \<le> tid + 2 * THREAD_NUM" "tid + 2 * THREAD_NUM < LARGE_SIZE"
    using assms by (simp_all add: THREAD_NUM_def LARGE_SIZE_def)
  have nn: "0 \<le> 5 * THREAD_NUM - N + tid" "0 \<le> 5 * THREAD_NUM - N + tid + 1"
    "0 \<le> 5 * THREAD_NUM - N + tid + pos" "0 \<le> 5 * THREAD_NUM - N + tid + pos - 1"
    "0 \<le> 6 * THREAD_NUM - N + tid" "0 \<le> 6 * THREAD_NUM - N + tid + 1"
    "0 \<le> 6 * THREAD_NUM - N + tid + pos" "0 \<le> tid + pos - 1 + 6 * THREAD_NUM - N"
    using assms by (simp_all add: THREAD_NUM_def N_def)
  show "taps_in_bounds (uint32_taps2 pos tid)"
    unfolding taps_in_bounds_def uint32_taps2_def
    using w nn [THEN in_range_smod] by simp
  show "taps_in_bounds (single_taps3 pos tid)"
    unfolding taps_in_bounds_def single_taps3_def
    using w nn [THEN in_range_smod] by simp
qed

section \<open>What a launch computes where its accesses are defined\<close>

lemma for_each_updates:
  fixes f :: "'i \<Rightarrow> 'a list \<Rightarrow> 'a list option"
  assumes step: "\<And>x s. x \<in> set xs \<Longrightarrow> length s = n \<Longrightarrow>
            \<exists>s'. f x s = Some s' \<and> length s' = n \<and> (\<forall>i. i \<notin> W x \<longrightarrow> s' ! i = s ! i)
                 \<and> (\<forall>i \<in> W x. s' ! i = V x i)"
    and len: "length s = n" and dist: "distinct xs"
    and disj: "\<And>x y. x \<in> set xs \<Longrightarrow> y \<in> set xs \<Longrightarrow> x \<noteq> y \<Longrightarrow> W x \<inter> W y = {}"
  shows "\<exists>s'. for_each f xs s = Some s' \<and> length s' = n
           \<and> (\<forall>i. i \<notin> (\<Union>x \<in> set xs. W x) \<longrightarrow> s' ! i = s ! i)
           \<and> (\<forall>x \<in> set xs. \<forall>i \<in> W x. s' ! i = V x i)"
  using assms
proof (induction xs arbitrary: s)
  case Nil
  then show ?case by simp
next
  case (Cons x xs)
  from Cons.prems(1) [of x s] Cons.prems(2)
  obtain s1 where s1: "f x s = Some s1" "length s1 = n"
    "\<forall>i. i \<notin> W x \<longrightarrow> s1 ! i = s ! i" "\<forall>i \<in> W x. s1 ! i = V x i"
    by auto
  have "\<exists>s'. for_each f xs s1 = Some s' \<and> length s' = n
           \<and> (\<forall>i. i \<notin> (\<Union>x \<in> set xs. W x) \<longrightarrow> s' ! i = s1 ! i)
           \<and> (\<forall>x \<in> set xs. \<forall>i \<in> W x. s' ! i = V x i)"
  proof (rule Cons.IH)
    show "\<And>y s. y \<in> set xs \<Longrightarrow> length s = n \<Longrightarrow>
            \<exists>s'. f y s = Some s' \<and> length s' = n \<and> (\<forall>i. i \<notin> W y \<longrightarrow> s' ! i = s ! i)
                 \<and> (\<forall>i \<in> W y. s' ! i = V y i)"
      using Cons.prems(1) by simp
    show "length s1 = n" by (rule s1(2))
    show "distinct xs" using Cons.prems(3) by simp
    show "\<And>y z. y \<in> set xs \<Longrightarrow> z \<in> set xs \<Longrightarrow> y \<noteq> z \<Longrightarrow> W y \<inter> W z = {}"
      using Cons.prems(4) by simp
  qed
  then obtain s' where s': "for_each f xs s1 = Some s'" "length s' = n"
    "\<forall>i. i \<notin> (\<Union>x \<in> set xs. W x) \<longrightarrow> s' ! i = s1 ! i"
    "\<forall>x \<in> set xs. \<forall>i \<in> W x. s' ! i = V x i"
    by blast
  have xs_disj: "\<And>y. y \<in> set xs \<Longrightarrow> W x \<inter> W y = {}"
    using Cons.prems(3,4) by auto
  have "\<forall>i \<in> W x. s' ! i = V x i"
  proof
    fix i assume i: "i \<in> W x"
    then have "i \<notin> (\<Union>x \<in> set xs. W x)" using xs_disj by auto
    then have "s' ! i = s1 ! i" using s'(3) by simp
    then show "s' ! i = V x i" using s1(4) i by simp
  qed
  moreover have "\<forall>i. i \<notin> (\<Union>x \<in> set (x # xs). W x) \<longrightarrow> s' ! i = s ! i"
    using s'(3) s1(3) by simp
  ultimately show ?case using s1(1) s'(1,2,4) by simp
qed

lemma those_map_nth:
  "those (map f xs) = Some ys \<Longrightarrow>
     length ys = length xs \<and> (\<forall>n < length xs. f (xs ! n) = Some (ys ! n))"
proof (induction xs arbitrary: ys)
  case Nil
  then show ?case by simp
next
  case (Cons x xs)
  from Cons.prems obtain y zs where y: "f x = Some y" "those (map f xs) = Some zs" "ys = y # zs"
    by (auto split: option.splits)
  from Cons.IH [OF y(2)] have ih: "length zs = length xs" "\<forall>n < length xs. f (xs ! n) = Some (zs ! n)"
    by simp_all
  show ?case
  proof (intro conjI allI impI)
    show "length ys = length (x # xs)" using ih(1) y(3) by simp
    fix n assume "n < length (x # xs)"
    then show "f ((x # xs) ! n) = Some (ys ! n)"
      using y ih(2) by (cases n) simp_all
  qed
qed

lemma lanes_nth: "tid \<in> set lanes \<Longrightarrow> nat tid < length lanes \<and> lanes ! nat tid = tid"
  by (auto simp: lanes_def)

lemma all_lanes_nth:
  assumes "all_lanes f = Some rs" and "tid \<in> set lanes"
  shows "f tid = Some (rs ! nat tid)"
proof -
  from assms(1) have "\<forall>n < length lanes. f (lanes ! n) = Some (rs ! n)"
    unfolding all_lanes_def by (rule those_map_nth [THEN conjunct2])
  with lanes_nth [OF assms(2)] show ?thesis by metis
qed

lemma lanes_distinct: "distinct lanes"
  by (simp add: lanes_def distinct_map inj_on_def)

lemma wr_step:
  assumes "0 \<le> g" "g < int n" "length s = n"
  shows "\<exists>s'. wr s g v = Some s' \<and> length s' = n \<and> (\<forall>i. i \<notin> {nat g} \<longrightarrow> s' ! i = s ! i)
               \<and> (\<forall>i \<in> {nat g}. s' ! i = v)"
  using assms by (simp add: wr_def)

lemma lane_writes:
  assumes rng: "\<And>tid. tid \<in> set lanes \<Longrightarrow> 0 \<le> g tid \<and> g tid < int (length s)"
    and inj: "\<And>x y. x \<in> set lanes \<Longrightarrow> y \<in> set lanes \<Longrightarrow> x \<noteq> y \<Longrightarrow> g x \<noteq> g y"
  shows "\<exists>s'. for_each (\<lambda>tid s. wr s (g tid) (h tid)) lanes s = Some s' \<and> length s' = length s
           \<and> (\<forall>i. i \<notin> (\<lambda>tid. nat (g tid)) ` set lanes \<longrightarrow> s' ! i = s ! i)
           \<and> (\<forall>tid \<in> set lanes. s' ! nat (g tid) = h tid)"
proof -
  have "\<exists>s'. for_each (\<lambda>tid s. wr s (g tid) (h tid)) lanes s = Some s' \<and> length s' = length s
           \<and> (\<forall>i. i \<notin> (\<Union>x \<in> set lanes. {nat (g x)}) \<longrightarrow> s' ! i = s ! i)
           \<and> (\<forall>x \<in> set lanes. \<forall>i \<in> {nat (g x)}. s' ! i = h x)"
  proof (rule for_each_updates [where W = "\<lambda>x. {nat (g x)}" and V = "\<lambda>x i. h x"])
    show "\<And>x s'. x \<in> set lanes \<Longrightarrow> length s' = length s \<Longrightarrow>
            \<exists>s''. wr s' (g x) (h x) = Some s'' \<and> length s'' = length s
              \<and> (\<forall>i. i \<notin> {nat (g x)} \<longrightarrow> s'' ! i = s' ! i) \<and> (\<forall>i \<in> {nat (g x)}. s'' ! i = h x)"
      using rng by (intro wr_step) simp_all
    show "distinct lanes" by (rule lanes_distinct)
    show "\<And>x y. x \<in> set lanes \<Longrightarrow> y \<in> set lanes \<Longrightarrow> x \<noteq> y \<Longrightarrow> {nat (g x)} \<inter> {nat (g y)} = {}"
    proof -
      fix x y assume a: "x \<in> set lanes" "y \<in> set lanes" "x \<noteq> y"
      from inj [OF a] rng [OF a(1)] rng [OF a(2)] have "nat (g x) \<noteq> nat (g y)"
        by (simp add: eq_nat_nat_iff)
      then show "{nat (g x)} \<inter> {nat (g y)} = {}" by simp
    qed
  qed simp
  then obtain s' where s': "for_each (\<lambda>tid s. wr s (g tid) (h tid)) lanes s = Some s'"
    "length s' = length s"
    "\<forall>i. i \<notin> (\<Union>x \<in> set lanes. {nat (g x)}) \<longrightarrow> s' ! i = s ! i"
    "\<forall>x \<in> set lanes. \<forall>i \<in> {nat (g x)}. s' ! i = h x"
    by blast
  have "\<forall>i. i \<notin> (\<lambda>tid. nat (g tid)) ` set lanes \<longrightarrow> s' ! i = s ! i"
  proof (intro allI impI)
    fix i assume "i \<notin> (\<lambda>tid. nat (g tid)) ` set lanes"
    then have "i \<notin> (\<Union>x \<in> set lanes. {nat (g x)})" by auto
    then show "s' ! i = s ! i" using s'(3) by simp
  qed
  moreover have "\<forall>tid \<in> set lanes. s' ! nat (g tid) = h tid"
    using s'(4) by simp
  ultimately show ?thesis using s'(1,2) by simp
qed

lemma rd_Some: "0 \<le> i \<Longrightarrow> i < int (length xs) \<Longrightarrow> rd xs i = Some (xs ! nat i)"
  by (simp add: rd_def)

lemma phase_spec:
  fixes a b c w t k :: "int \<Rightarrow> int"
  assumes ix: "\<And>tid. ix tid = (a tid, b tid, c tid, w tid, t tid)"
    and rng: "\<And>tid. tid \<in> set lanes \<Longrightarrow>
        0 \<le> a tid \<and> a tid < int (length status) \<and> 0 \<le> b tid \<and> b tid < int (length status)
      \<and> 0 \<le> c tid \<and> c tid < int (length status) \<and> 0 \<le> w tid \<and> w tid < int (length status)
      \<and> 0 \<le> t tid \<and> t tid < int (length status)"
    and winj: "\<And>x y. x \<in> set lanes \<Longrightarrow> y \<in> set lanes \<Longrightarrow> x \<noteq> y \<Longrightarrow> w x \<noteq> w y"
    and krng: "\<And>tid. tid \<in> set lanes \<Longrightarrow> 0 \<le> k tid \<and> k tid < int (length d)"
    and kinj: "\<And>x y. x \<in> set lanes \<Longrightarrow> y \<in> set lanes \<Longrightarrow> x \<noteq> y \<Longrightarrow> k x \<noteq> k y"
    and pr: "\<And>X1 X2 Y. para_rec dev X1 X2 Y bid \<noteq> None"
    and tm: "\<And>V T. tmp dev V T bid \<noteq> None"
  shows "\<exists>status' d'. phase tmp dev bid ix k (status, d) = Some (status', d')
      \<and> length status' = length status \<and> length d' = length d
      \<and> (\<forall>i. i \<notin> (\<lambda>tid. nat (w tid)) ` set lanes \<longrightarrow> status' ! i = status ! i)
      \<and> (\<forall>tid \<in> set lanes. status' ! nat (w tid)
            = the (para_rec dev (status ! nat (a tid)) (status ! nat (b tid))
                     (status ! nat (c tid)) bid))
      \<and> (\<forall>i. i \<notin> (\<lambda>tid. nat (k tid)) ` set lanes \<longrightarrow> d' ! i = d ! i)
      \<and> (\<forall>tid \<in> set lanes. d' ! nat (k tid)
            = the (tmp dev (status' ! nat (w tid)) (status' ! nat (t tid)) bid))"
proof -
  define R where "R = (\<lambda>tid. the (para_rec dev (status ! nat (a tid)) (status ! nat (b tid))
                     (status ! nat (c tid)) bid))"
  define F1 where "F1 = (\<lambda>tid. do {
             X1 \<leftarrow> rd status (a tid);
             X2 \<leftarrow> rd status (b tid);
             Y \<leftarrow> rd status (c tid);
             para_rec dev X1 X2 Y bid })"
  have F1v: "F1 tid = Some (R tid)" if "tid \<in> set lanes" for tid
  proof -
    from rng [OF that] have "rd status (a tid) = Some (status ! nat (a tid))"
      "rd status (b tid) = Some (status ! nat (b tid))"
      "rd status (c tid) = Some (status ! nat (c tid))"
      by (simp_all add: rd_Some)
    then show ?thesis using pr [of "status ! nat (a tid)" "status ! nat (b tid)" "status ! nat (c tid)"]
      by (auto simp: F1_def R_def)
  qed
  have "\<exists>rs. all_lanes F1 = Some rs"
    by (rule all_lanes_Some) (simp add: F1v)
  then obtain rs where rs: "all_lanes F1 = Some rs" ..
  have rsv: "rs ! nat tid = R tid" if "tid \<in> set lanes" for tid
    using all_lanes_nth [OF rs that] F1v [OF that] by simp
  have "\<exists>s'. for_each (\<lambda>tid s. wr s (w tid) (rs ! nat tid)) lanes status = Some s'
           \<and> length s' = length status
           \<and> (\<forall>i. i \<notin> (\<lambda>tid. nat (w tid)) ` set lanes \<longrightarrow> s' ! i = status ! i)
           \<and> (\<forall>tid \<in> set lanes. s' ! nat (w tid) = rs ! nat tid)"
    by (rule lane_writes) (use rng winj in auto)
  then obtain status' where st': "for_each (\<lambda>tid s. wr s (w tid) (rs ! nat tid)) lanes status = Some status'"
    "length status' = length status"
    "\<forall>i. i \<notin> (\<lambda>tid. nat (w tid)) ` set lanes \<longrightarrow> status' ! i = status ! i"
    "\<forall>tid \<in> set lanes. status' ! nat (w tid) = rs ! nat tid"
    by blast
  define F2 where "F2 = (\<lambda>tid. do {
             T \<leftarrow> rd status' (t tid);
             tmp dev (rs ! nat tid) T bid })"
  have F2v: "F2 tid = Some (the (tmp dev (rs ! nat tid) (status' ! nat (t tid)) bid))"
    if "tid \<in> set lanes" for tid
  proof -
    from rng [OF that] st'(2) have "rd status' (t tid) = Some (status' ! nat (t tid))"
      by (simp add: rd_Some)
    then show ?thesis using tm [of "rs ! nat tid" "status' ! nat (t tid)"]
      by (auto simp: F2_def)
  qed
  have "\<exists>os. all_lanes F2 = Some os"
    by (rule all_lanes_Some) (simp add: F2v)
  then obtain os where os: "all_lanes F2 = Some os" ..
  have osv: "os ! nat tid = the (tmp dev (rs ! nat tid) (status' ! nat (t tid)) bid)"
    if "tid \<in> set lanes" for tid
    using all_lanes_nth [OF os that] F2v [OF that] by simp
  have "\<exists>d'. for_each (\<lambda>tid s. wr s (k tid) (os ! nat tid)) lanes d = Some d'
           \<and> length d' = length d
           \<and> (\<forall>i. i \<notin> (\<lambda>tid. nat (k tid)) ` set lanes \<longrightarrow> d' ! i = d ! i)
           \<and> (\<forall>tid \<in> set lanes. d' ! nat (k tid) = os ! nat tid)"
    by (rule lane_writes) (use krng kinj in auto)
  then obtain d' where d': "for_each (\<lambda>tid s. wr s (k tid) (os ! nat tid)) lanes d = Some d'"
    "length d' = length d"
    "\<forall>i. i \<notin> (\<lambda>tid. nat (k tid)) ` set lanes \<longrightarrow> d' ! i = d ! i"
    "\<forall>tid \<in> set lanes. d' ! nat (k tid) = os ! nat tid"
    by blast
  have "phase tmp dev bid ix k (status, d) = do {
     rs \<leftarrow> all_lanes F1;
     status \<leftarrow> for_each (\<lambda>tid s. wr s (w tid) (rs ! nat tid)) lanes status;
     os \<leftarrow> all_lanes (\<lambda>tid. do {
             T \<leftarrow> rd status (t tid);
             tmp dev (rs ! nat tid) T bid });
     d_data \<leftarrow> for_each (\<lambda>tid s. wr s (k tid) (os ! nat tid)) lanes d;
     Some (status, d_data) }"
    by (simp add: phase_def ix F1_def)
  also have "\<dots> = Some (status', d')"
    by (simp only: rs st'(1) Option.bind.simps F2_def [symmetric] os d'(1))
  finally have p: "phase tmp dev bid ix k (status, d) = Some (status', d')" .
  have "\<forall>tid \<in> set lanes. status' ! nat (w tid)
            = the (para_rec dev (status ! nat (a tid)) (status ! nat (b tid))
                     (status ! nat (c tid)) bid)"
    using st'(4) rsv by (simp add: R_def)
  moreover have "\<forall>tid \<in> set lanes. d' ! nat (k tid)
            = the (tmp dev (status' ! nat (w tid)) (status' ! nat (t tid)) bid)"
    using d'(4) osv st'(4) by simp
  ultimately show ?thesis using p st'(2,3) d'(2,3) by blast
qed

lemma lane_bounds: "tid \<in> set lanes \<Longrightarrow> 0 \<le> tid \<and> tid < 256"
  using lane_range [of tid] by (simp add: THREAD_NUM_def)

lemma lane_in: "0 \<le> tid \<Longrightarrow> tid < 256 \<Longrightarrow> tid \<in> set lanes"
  by (rule lane_mem) (simp_all add: THREAD_NUM_def)

lemma smod_id: "0 \<le> x \<Longrightarrow> x < 1024 \<Longrightarrow> x smod LARGE_SIZE = x"
  by (simp add: smod_mod_positive LARGE_SIZE_def THREAD_NUM_def)

lemma smod_1024: "0 \<le> x \<Longrightarrow> x < 1024 \<Longrightarrow> x smod 1024 = (x :: int)"
  by (simp add: smod_mod_positive)

lemma not_in_lane_image:
  assumes "\<And>tid. 0 \<le> tid \<Longrightarrow> tid < 256 \<Longrightarrow> nat (g tid) \<noteq> i"
  shows "i \<notin> (\<lambda>tid. nat (g tid)) ` set lanes"
  using assms lane_bounds by blast

lemma uint32_batch_spec:
  assumes pr: "\<And>X1 X2 Y. para_rec dev X1 X2 Y bid \<noteq> None"
    and tm: "\<And>V T. temper dev V T bid \<noteq> None"
    and pos: "43 \<le> pos" "pos \<le> 214"
    and len: "1280 \<le> length status"
    and base: "0 \<le> sz * int bid + i" "sz * int bid + i + 1024 \<le> int (length d)"
  shows "\<exists>status' d'. uint32_batch dev bid pos sz i (status, d) = Some (status', d')
      \<and> length status' = length status \<and> length d' = length d
      \<and> (\<forall>j. 1024 \<le> j \<longrightarrow> status' ! j = status ! j)
      \<and> status' ! 298 = the (para_rec dev (status ! 596) (status ! 597) (status ! nat (596 + pos)) bid)
      \<and> status' ! 299 = the (para_rec dev (status ! 597) (status ! 598) (status ! nat (597 + pos)) bid)
      \<and> d' ! nat (sz * int bid + i + 726)
           = the (temper dev (the (para_rec dev (status ! 1024) (status ! 1025)
                                     (status ! nat (1024 + pos)) bid))
                             (status ! nat (1023 + pos)) bid)
      \<and> (\<forall>j. j < nat (sz * int bid + i) \<or> nat (sz * int bid + i + 1024) \<le> j \<longrightarrow> d' ! j = d ! j)"
proof -
  define base where "base = sz * int bid + i"
  have b0: "0 \<le> base" "base + 1024 \<le> int (length d)" using base by (simp_all add: base_def)
  have L: "1280 \<le> int (length status)" using len by simp
  have "\<exists>status' d'. phase temper dev bid (uint32_taps1 pos) (\<lambda>tid. sz * int bid + i + tid) (status, d)
          = Some (status', d')
      \<and> length status' = length status \<and> length d' = length d
      \<and> (\<forall>j. j \<notin> (\<lambda>tid. nat tid) ` set lanes \<longrightarrow> status' ! j = status ! j)
      \<and> (\<forall>tid \<in> set lanes. status' ! nat tid
            = the (para_rec dev (status ! nat (LARGE_SIZE - N + tid)) (status ! nat (LARGE_SIZE - N + tid + 1))
                     (status ! nat (LARGE_SIZE - N + tid + pos)) bid))
      \<and> (\<forall>j. j \<notin> (\<lambda>tid. nat (sz * int bid + i + tid)) ` set lanes \<longrightarrow> d' ! j = d ! j)
      \<and> (\<forall>tid \<in> set lanes. d' ! nat (sz * int bid + i + tid)
            = the (temper dev (status' ! nat tid) (status' ! nat (LARGE_SIZE - N + tid + pos - 1)) bid))"
  proof (rule phase_spec [where a = "\<lambda>tid. LARGE_SIZE - N + tid" and b = "\<lambda>tid. LARGE_SIZE - N + tid + 1"
        and c = "\<lambda>tid. LARGE_SIZE - N + tid + pos" and w = "\<lambda>tid. tid"
        and t = "\<lambda>tid. LARGE_SIZE - N + tid + pos - 1"])
    show "\<And>tid. uint32_taps1 pos tid = (LARGE_SIZE - N + tid, LARGE_SIZE - N + tid + 1,
        LARGE_SIZE - N + tid + pos, tid, LARGE_SIZE - N + tid + pos - 1)"
      by (simp add: uint32_taps1_def)
    show "\<And>tid. tid \<in> set lanes \<Longrightarrow> 0 \<le> sz * int bid + i + tid \<and> sz * int bid + i + tid < int (length d)"
      using b0 lane_bounds by (fastforce simp: base_def)
  qed (use pos L lane_bounds pr tm in \<open>fastforce simp: LARGE_SIZE_def THREAD_NUM_def N_def\<close>)+
  then obtain s1 d1 where p1: "phase temper dev bid (uint32_taps1 pos) (\<lambda>tid. sz * int bid + i + tid) (status, d)
          = Some (s1, d1)"
    and l1: "length s1 = length status" "length d1 = length d"
    and f1: "\<forall>j. j \<notin> (\<lambda>tid. nat tid) ` set lanes \<longrightarrow> s1 ! j = status ! j"
    and g1: "\<forall>j. j \<notin> (\<lambda>tid. nat (sz * int bid + i + tid)) ` set lanes \<longrightarrow> d1 ! j = d ! j"
    by blast
  have s1_keep: "s1 ! j = status ! j" if "256 \<le> j" for j
  proof -
    have "j \<notin> (\<lambda>tid. nat tid) ` set lanes"
      by (rule not_in_lane_image) (use that in linarith)
    then show ?thesis using f1 by simp
  qed
  have d1_keep: "d1 ! j = d ! j" if "j < nat base \<or> nat (base + 1024) \<le> j" for j
  proof -
    have "j \<notin> (\<lambda>tid. nat (sz * int bid + i + tid)) ` set lanes"
      by (rule not_in_lane_image) (use that b0 in \<open>simp add: base_def; linarith\<close>)
    then show ?thesis using g1 by simp
  qed
  have L1: "1280 \<le> int (length s1)" using L l1 by simp
  have "\<exists>status' d'. phase temper dev bid (uint32_taps2 pos) (\<lambda>tid. sz * int bid + THREAD_NUM + i + tid) (s1, d1)
          = Some (status', d')
      \<and> length status' = length s1 \<and> length d' = length d1
      \<and> (\<forall>j. j \<notin> (\<lambda>tid. nat (tid + THREAD_NUM)) ` set lanes \<longrightarrow> status' ! j = s1 ! j)
      \<and> (\<forall>tid \<in> set lanes. status' ! nat (tid + THREAD_NUM)
            = the (para_rec dev (s1 ! nat ((5 * THREAD_NUM - N + tid) smod LARGE_SIZE))
                     (s1 ! nat ((5 * THREAD_NUM - N + tid + 1) smod LARGE_SIZE))
                     (s1 ! nat ((5 * THREAD_NUM - N + tid + pos) smod LARGE_SIZE)) bid))
      \<and> (\<forall>j. j \<notin> (\<lambda>tid. nat (sz * int bid + THREAD_NUM + i + tid)) ` set lanes \<longrightarrow> d' ! j = d1 ! j)
      \<and> (\<forall>tid \<in> set lanes. d' ! nat (sz * int bid + THREAD_NUM + i + tid)
            = the (temper dev (status' ! nat (tid + THREAD_NUM))
                     (status' ! nat ((5 * THREAD_NUM - N + tid + pos - 1) smod LARGE_SIZE)) bid))"
  proof (rule phase_spec [where a = "\<lambda>tid. (5 * THREAD_NUM - N + tid) smod LARGE_SIZE"
        and b = "\<lambda>tid. (5 * THREAD_NUM - N + tid + 1) smod LARGE_SIZE"
        and c = "\<lambda>tid. (5 * THREAD_NUM - N + tid + pos) smod LARGE_SIZE"
        and w = "\<lambda>tid. tid + THREAD_NUM"
        and t = "\<lambda>tid. (5 * THREAD_NUM - N + tid + pos - 1) smod LARGE_SIZE"])
    show "\<And>tid. uint32_taps2 pos tid = ((5 * THREAD_NUM - N + tid) smod LARGE_SIZE,
        (5 * THREAD_NUM - N + tid + 1) smod LARGE_SIZE,
        (5 * THREAD_NUM - N + tid + pos) smod LARGE_SIZE, tid + THREAD_NUM,
        (5 * THREAD_NUM - N + tid + pos - 1) smod LARGE_SIZE)"
      by (simp add: uint32_taps2_def)
    show "\<And>tid. tid \<in> set lanes \<Longrightarrow> 0 \<le> sz * int bid + THREAD_NUM + i + tid
        \<and> sz * int bid + THREAD_NUM + i + tid < int (length d1)"
      using b0 l1 lane_bounds by (fastforce simp: base_def THREAD_NUM_def)
    show "\<And>tid. tid \<in> set lanes \<Longrightarrow>
        0 \<le> (5 * THREAD_NUM - N + tid) smod LARGE_SIZE \<and> (5 * THREAD_NUM - N + tid) smod LARGE_SIZE < int (length s1)
      \<and> 0 \<le> (5 * THREAD_NUM - N + tid + 1) smod LARGE_SIZE \<and> (5 * THREAD_NUM - N + tid + 1) smod LARGE_SIZE < int (length s1)
      \<and> 0 \<le> (5 * THREAD_NUM - N + tid + pos) smod LARGE_SIZE \<and> (5 * THREAD_NUM - N + tid + pos) smod LARGE_SIZE < int (length s1)
      \<and> 0 \<le> tid + THREAD_NUM \<and> tid + THREAD_NUM < int (length s1)
      \<and> 0 \<le> (5 * THREAD_NUM - N + tid + pos - 1) smod LARGE_SIZE \<and> (5 * THREAD_NUM - N + tid + pos - 1) smod LARGE_SIZE < int (length s1)"
    proof -
      fix tid assume "tid \<in> set lanes"
      then have t: "0 \<le> tid" "tid < 256" using lane_bounds by simp_all
      with pos show "0 \<le> (5 * THREAD_NUM - N + tid) smod LARGE_SIZE \<and> (5 * THREAD_NUM - N + tid) smod LARGE_SIZE < int (length s1)
      \<and> 0 \<le> (5 * THREAD_NUM - N + tid + 1) smod LARGE_SIZE \<and> (5 * THREAD_NUM - N + tid + 1) smod LARGE_SIZE < int (length s1)
      \<and> 0 \<le> (5 * THREAD_NUM - N + tid + pos) smod LARGE_SIZE \<and> (5 * THREAD_NUM - N + tid + pos) smod LARGE_SIZE < int (length s1)
      \<and> 0 \<le> tid + THREAD_NUM \<and> tid + THREAD_NUM < int (length s1)
      \<and> 0 \<le> (5 * THREAD_NUM - N + tid + pos - 1) smod LARGE_SIZE \<and> (5 * THREAD_NUM - N + tid + pos - 1) smod LARGE_SIZE < int (length s1)"
        using L1 by (simp add: LARGE_SIZE_def THREAD_NUM_def N_def smod_1024)
    qed
  qed (use pr tm in \<open>simp_all\<close>)
  then obtain s2 d2 where p2: "phase temper dev bid (uint32_taps2 pos) (\<lambda>tid. sz * int bid + THREAD_NUM + i + tid) (s1, d1)
          = Some (s2, d2)"
    and l2: "length s2 = length s1" "length d2 = length d1"
    and f2: "\<forall>j. j \<notin> (\<lambda>tid. nat (tid + THREAD_NUM)) ` set lanes \<longrightarrow> s2 ! j = s1 ! j"
    and v2: "\<forall>tid \<in> set lanes. s2 ! nat (tid + THREAD_NUM)
            = the (para_rec dev (s1 ! nat ((5 * THREAD_NUM - N + tid) smod LARGE_SIZE))
                     (s1 ! nat ((5 * THREAD_NUM - N + tid + 1) smod LARGE_SIZE))
                     (s1 ! nat ((5 * THREAD_NUM - N + tid + pos) smod LARGE_SIZE)) bid)"
    and g2: "\<forall>j. j \<notin> (\<lambda>tid. nat (sz * int bid + THREAD_NUM + i + tid)) ` set lanes \<longrightarrow> d2 ! j = d1 ! j"
    by blast
  have s2_keep: "s2 ! j = s1 ! j" if "j < 256 \<or> 512 \<le> j" for j
  proof -
    have "j \<notin> (\<lambda>tid. nat (tid + THREAD_NUM)) ` set lanes"
      by (rule not_in_lane_image) (use that in \<open>simp add: THREAD_NUM_def; linarith\<close>)
    then show ?thesis using f2 by simp
  qed
  have d2_keep: "d2 ! j = d1 ! j" if "j < nat base \<or> nat (base + 1024) \<le> j" for j
  proof -
    have "j \<notin> (\<lambda>tid. nat (sz * int bid + THREAD_NUM + i + tid)) ` set lanes"
      by (rule not_in_lane_image) (use that b0 in \<open>simp add: base_def THREAD_NUM_def; linarith\<close>)
    then show ?thesis using g2 by simp
  qed
  have w298: "s2 ! 298 = the (para_rec dev (status ! 596) (status ! 597) (status ! nat (596 + pos)) bid)"
  proof -
    have "s2 ! nat (42 + THREAD_NUM)
            = the (para_rec dev (s1 ! nat ((5 * THREAD_NUM - N + 42) smod LARGE_SIZE))
                     (s1 ! nat ((5 * THREAD_NUM - N + 42 + 1) smod LARGE_SIZE))
                     (s1 ! nat ((5 * THREAD_NUM - N + 42 + pos) smod LARGE_SIZE)) bid)"
      using v2 lane_in [of 42] by simp
    then have "s2 ! 298 = the (para_rec dev (s1 ! 596) (s1 ! 597) (s1 ! nat (596 + pos)) bid)"
      using pos by (simp add: LARGE_SIZE_def THREAD_NUM_def N_def smod_1024)
    moreover have "256 \<le> nat (596 + pos)" using pos by simp
    ultimately show ?thesis by (simp add: s1_keep)
  qed
  have w299: "s2 ! 299 = the (para_rec dev (status ! 597) (status ! 598) (status ! nat (597 + pos)) bid)"
  proof -
    have "s2 ! nat (43 + THREAD_NUM)
            = the (para_rec dev (s1 ! nat ((5 * THREAD_NUM - N + 43) smod LARGE_SIZE))
                     (s1 ! nat ((5 * THREAD_NUM - N + 43 + 1) smod LARGE_SIZE))
                     (s1 ! nat ((5 * THREAD_NUM - N + 43 + pos) smod LARGE_SIZE)) bid)"
      using v2 lane_in [of 43] by simp
    then have "s2 ! 299 = the (para_rec dev (s1 ! 597) (s1 ! 598) (s1 ! nat (597 + pos)) bid)"
      using pos by (simp add: LARGE_SIZE_def THREAD_NUM_def N_def smod_1024)
    moreover have "256 \<le> nat (597 + pos)" using pos by simp
    ultimately show ?thesis by (simp add: s1_keep)
  qed
  have L2: "1280 \<le> int (length s2)" using L1 l2 by simp
  have "\<exists>status' d'. phase temper dev bid (uint32_taps3 pos) (\<lambda>tid. sz * int bid + 2 * THREAD_NUM + i + tid) (s2, d2)
          = Some (status', d')
      \<and> length status' = length s2 \<and> length d' = length d2
      \<and> (\<forall>j. j \<notin> (\<lambda>tid. nat (tid + 2 * THREAD_NUM)) ` set lanes \<longrightarrow> status' ! j = s2 ! j)
      \<and> (\<forall>tid \<in> set lanes. status' ! nat (tid + 2 * THREAD_NUM)
            = the (para_rec dev (s2 ! nat (6 * THREAD_NUM - N + tid))
                     (s2 ! nat (6 * THREAD_NUM - N + tid + 1))
                     (s2 ! nat (6 * THREAD_NUM - N + tid + pos)) bid))
      \<and> (\<forall>j. j \<notin> (\<lambda>tid. nat (sz * int bid + 2 * THREAD_NUM + i + tid)) ` set lanes \<longrightarrow> d' ! j = d2 ! j)
      \<and> (\<forall>tid \<in> set lanes. d' ! nat (sz * int bid + 2 * THREAD_NUM + i + tid)
            = the (temper dev (status' ! nat (tid + 2 * THREAD_NUM))
                     (status' ! nat (tid + pos - 1 + 6 * THREAD_NUM - N)) bid))"
  proof (rule phase_spec [where a = "\<lambda>tid. 6 * THREAD_NUM - N + tid"
        and b = "\<lambda>tid. 6 * THREAD_NUM - N + tid + 1"
        and c = "\<lambda>tid. 6 * THREAD_NUM - N + tid + pos"
        and w = "\<lambda>tid. tid + 2 * THREAD_NUM"
        and t = "\<lambda>tid. tid + pos - 1 + 6 * THREAD_NUM - N"])
    show "\<And>tid. uint32_taps3 pos tid = (6 * THREAD_NUM - N + tid, 6 * THREAD_NUM - N + tid + 1,
        6 * THREAD_NUM - N + tid + pos, tid + 2 * THREAD_NUM, tid + pos - 1 + 6 * THREAD_NUM - N)"
      by (simp add: uint32_taps3_def)
    show "\<And>tid. tid \<in> set lanes \<Longrightarrow> 0 \<le> sz * int bid + 2 * THREAD_NUM + i + tid
        \<and> sz * int bid + 2 * THREAD_NUM + i + tid < int (length d2)"
      using b0 l1 l2 lane_bounds by (fastforce simp: base_def THREAD_NUM_def)
  qed (use pos L2 lane_bounds pr tm in \<open>fastforce simp: LARGE_SIZE_def THREAD_NUM_def N_def\<close>)+
  then obtain s3 d3 where p3: "phase temper dev bid (uint32_taps3 pos) (\<lambda>tid. sz * int bid + 2 * THREAD_NUM + i + tid) (s2, d2)
          = Some (s3, d3)"
    and l3: "length s3 = length s2" "length d3 = length d2"
    and f3: "\<forall>j. j \<notin> (\<lambda>tid. nat (tid + 2 * THREAD_NUM)) ` set lanes \<longrightarrow> s3 ! j = s2 ! j"
    and v3: "\<forall>tid \<in> set lanes. s3 ! nat (tid + 2 * THREAD_NUM)
            = the (para_rec dev (s2 ! nat (6 * THREAD_NUM - N + tid))
                     (s2 ! nat (6 * THREAD_NUM - N + tid + 1))
                     (s2 ! nat (6 * THREAD_NUM - N + tid + pos)) bid)"
    and g3: "\<forall>j. j \<notin> (\<lambda>tid. nat (sz * int bid + 2 * THREAD_NUM + i + tid)) ` set lanes \<longrightarrow> d3 ! j = d2 ! j"
    and o3: "\<forall>tid \<in> set lanes. d3 ! nat (sz * int bid + 2 * THREAD_NUM + i + tid)
            = the (temper dev (s3 ! nat (tid + 2 * THREAD_NUM))
                     (s3 ! nat (tid + pos - 1 + 6 * THREAD_NUM - N)) bid)"
    by blast
  have s3_keep: "s3 ! j = s2 ! j" if "j < 512 \<or> 768 \<le> j" for j
  proof -
    have "j \<notin> (\<lambda>tid. nat (tid + 2 * THREAD_NUM)) ` set lanes"
      by (rule not_in_lane_image) (use that in \<open>simp add: THREAD_NUM_def; linarith\<close>)
    then show ?thesis using f3 by simp
  qed
  have d3_keep: "d3 ! j = d2 ! j" if "j < nat base \<or> nat (base + 1024) \<le> j" for j
  proof -
    have "j \<notin> (\<lambda>tid. nat (sz * int bid + 2 * THREAD_NUM + i + tid)) ` set lanes"
      by (rule not_in_lane_image) (use that b0 in \<open>simp add: base_def THREAD_NUM_def; linarith\<close>)
    then show ?thesis using g3 by simp
  qed
  have keep_hi: "s2 ! j = status ! j" if "512 \<le> j" for j
    using that by (simp add: s2_keep s1_keep)
  have o726: "d3 ! nat (base + 726)
           = the (temper dev (the (para_rec dev (status ! 1024) (status ! 1025)
                                     (status ! nat (1024 + pos)) bid))
                             (status ! nat (1023 + pos)) bid)"
  proof -
    have "s3 ! nat (214 + 2 * THREAD_NUM)
            = the (para_rec dev (s2 ! nat (6 * THREAD_NUM - N + 214))
                     (s2 ! nat (6 * THREAD_NUM - N + 214 + 1))
                     (s2 ! nat (6 * THREAD_NUM - N + 214 + pos)) bid)"
      using v3 lane_in [of 214] by simp
    then have r: "s3 ! 726 = the (para_rec dev (s2 ! 1024) (s2 ! 1025) (s2 ! nat (1024 + pos)) bid)"
      using pos by (simp add: THREAD_NUM_def N_def)
    have e1: "sz * int bid + 2 * THREAD_NUM + i + 214 = base + 726"
      by (simp add: base_def THREAD_NUM_def)
    have e2: "214 + 2 * THREAD_NUM = 726" by (simp add: THREAD_NUM_def)
    have e3: "214 + pos - 1 + 6 * THREAD_NUM - N = 1023 + pos" by (simp add: THREAD_NUM_def N_def)
    have "d3 ! nat (sz * int bid + 2 * THREAD_NUM + i + 214)
            = the (temper dev (s3 ! nat (214 + 2 * THREAD_NUM))
                     (s3 ! nat (214 + pos - 1 + 6 * THREAD_NUM - N)) bid)"
      using o3 lane_in [of 214] by simp
    then have "d3 ! nat (base + 726) = the (temper dev (s3 ! 726) (s3 ! nat (1023 + pos)) bid)"
      unfolding e1 e2 e3 by simp
    moreover have "768 \<le> nat (1023 + pos)" "512 \<le> nat (1023 + pos)" "512 \<le> nat (1024 + pos)"
      using pos by simp_all
    ultimately show ?thesis using r by (simp add: s3_keep keep_hi)
  qed
  have L3: "1280 \<le> int (length s3)" using L2 l3 by simp
  have "\<exists>status' d'. phase temper dev bid (uint32_taps4 pos) (\<lambda>tid. sz * int bid + 3 * THREAD_NUM + i + tid) (s3, d3)
          = Some (status', d')
      \<and> length status' = length s3 \<and> length d' = length d3
      \<and> (\<forall>j. j \<notin> (\<lambda>tid. nat (tid + 3 * THREAD_NUM)) ` set lanes \<longrightarrow> status' ! j = s3 ! j)
      \<and> (\<forall>tid \<in> set lanes. status' ! nat (tid + 3 * THREAD_NUM)
            = the (para_rec dev (s3 ! nat (3 * THREAD_NUM - N + tid))
                     (s3 ! nat (3 * THREAD_NUM - N + tid + 1))
                     (s3 ! nat (3 * THREAD_NUM - N + tid + pos)) bid))
      \<and> (\<forall>j. j \<notin> (\<lambda>tid. nat (sz * int bid + 3 * THREAD_NUM + i + tid)) ` set lanes \<longrightarrow> d' ! j = d3 ! j)
      \<and> (\<forall>tid \<in> set lanes. d' ! nat (sz * int bid + 3 * THREAD_NUM + i + tid)
            = the (temper dev (status' ! nat (tid + 3 * THREAD_NUM))
                     (status' ! nat (tid + pos - 1 + 3 * THREAD_NUM - N)) bid))"
  proof (rule phase_spec [where a = "\<lambda>tid. 3 * THREAD_NUM - N + tid"
        and b = "\<lambda>tid. 3 * THREAD_NUM - N + tid + 1"
        and c = "\<lambda>tid. 3 * THREAD_NUM - N + tid + pos"
        and w = "\<lambda>tid. tid + 3 * THREAD_NUM"
        and t = "\<lambda>tid. tid + pos - 1 + 3 * THREAD_NUM - N"])
    show "\<And>tid. uint32_taps4 pos tid = (3 * THREAD_NUM - N + tid, 3 * THREAD_NUM - N + tid + 1,
        3 * THREAD_NUM - N + tid + pos, tid + 3 * THREAD_NUM, tid + pos - 1 + 3 * THREAD_NUM - N)"
      by (simp add: uint32_taps4_def)
    show "\<And>tid. tid \<in> set lanes \<Longrightarrow> 0 \<le> sz * int bid + 3 * THREAD_NUM + i + tid
        \<and> sz * int bid + 3 * THREAD_NUM + i + tid < int (length d3)"
      using b0 l1 l2 l3 lane_bounds by (fastforce simp: base_def THREAD_NUM_def)
  qed (use pos L3 lane_bounds pr tm in \<open>fastforce simp: LARGE_SIZE_def THREAD_NUM_def N_def\<close>)+
  then obtain s4 d4 where p4: "phase temper dev bid (uint32_taps4 pos) (\<lambda>tid. sz * int bid + 3 * THREAD_NUM + i + tid) (s3, d3)
          = Some (s4, d4)"
    and l4: "length s4 = length s3" "length d4 = length d3"
    and f4: "\<forall>j. j \<notin> (\<lambda>tid. nat (tid + 3 * THREAD_NUM)) ` set lanes \<longrightarrow> s4 ! j = s3 ! j"
    and g4: "\<forall>j. j \<notin> (\<lambda>tid. nat (sz * int bid + 3 * THREAD_NUM + i + tid)) ` set lanes \<longrightarrow> d4 ! j = d3 ! j"
    by blast
  have s4_keep: "s4 ! j = s3 ! j" if "j < 768 \<or> 1024 \<le> j" for j
  proof -
    have "j \<notin> (\<lambda>tid. nat (tid + 3 * THREAD_NUM)) ` set lanes"
      by (rule not_in_lane_image) (use that in \<open>simp add: THREAD_NUM_def; linarith\<close>)
    then show ?thesis using f4 by simp
  qed
  have d4_keep: "d4 ! j = d3 ! j" if "j < nat (base + 768) \<or> nat (base + 1024) \<le> j" for j
  proof -
    have "j \<notin> (\<lambda>tid. nat (sz * int bid + 3 * THREAD_NUM + i + tid)) ` set lanes"
      by (rule not_in_lane_image) (use that b0 in \<open>simp add: base_def THREAD_NUM_def; linarith\<close>)
    then show ?thesis using g4 by simp
  qed
  have run: "uint32_batch dev bid pos sz i (status, d) = Some (s4, d4)"
    by (simp add: uint32_batch_def p1 p2 p3 p4)
  have c1: "length s4 = length status" "length d4 = length d"
    using l1 l2 l3 l4 by simp_all
  have c2: "\<forall>j. 1024 \<le> j \<longrightarrow> s4 ! j = status ! j"
    by (simp add: s4_keep s3_keep keep_hi)
  have c3: "s4 ! 298 = the (para_rec dev (status ! 596) (status ! 597) (status ! nat (596 + pos)) bid)"
    "s4 ! 299 = the (para_rec dev (status ! 597) (status ! 598) (status ! nat (597 + pos)) bid)"
    using w298 w299 by (simp_all add: s4_keep s3_keep)
  have "nat (base + 726) < nat (base + 768)" using b0 by simp
  then have c4: "d4 ! nat (base + 726)
           = the (temper dev (the (para_rec dev (status ! 1024) (status ! 1025)
                                     (status ! nat (1024 + pos)) bid))
                             (status ! nat (1023 + pos)) bid)"
    using o726 by (simp add: d4_keep)
  have c5: "\<forall>j. j < nat base \<or> nat (base + 1024) \<le> j \<longrightarrow> d4 ! j = d ! j"
  proof (intro allI impI)
    fix j assume j: "j < nat base \<or> nat (base + 1024) \<le> j"
    then have "j < nat (base + 768) \<or> nat (base + 1024) \<le> j" using b0 by auto
    then show "d4 ! j = d ! j" using j by (simp add: d4_keep d3_keep d2_keep d1_keep)
  qed
  show ?thesis
    using run c1 c2 c3 c4 c5 unfolding base_def by blast
qed

lemma status_read_thread_Some:
  assumes "0 \<le> tid" "tid < 256" "768 \<le> length st" "1066 \<le> length s"
  shows "status_read_thread st tid s
     = Some (s[nat (298 + tid) := st ! nat tid, nat (554 + tid) := st ! nat (256 + tid),
               nat (810 + tid) := st ! nat (512 + tid)])"
  using assms
  by (simp add: status_read_thread_def status_read_idx_def N_def THREAD_NUM_def LARGE_SIZE_def
      rd_def wr_def)

lemma status_write_thread_Some:
  assumes "0 \<le> tid" "tid < 256" "768 \<le> length st" "1066 \<le> length status"
  shows "status_write_thread status tid st
     = Some (st[nat tid := status ! nat (298 + tid), nat (256 + tid) := status ! nat (554 + tid),
                nat (512 + tid) := status ! nat (810 + tid)])"
  using assms
  by (simp add: status_write_thread_def status_write_idx_def N_def THREAD_NUM_def LARGE_SIZE_def
      rd_def wr_def)

lemma status_read_spec:
  assumes st: "768 \<le> length st" and len: "1066 \<le> length status"
  shows "\<exists>s'. status_read status st = Some s' \<and> length s' = length status
      \<and> (\<forall>i. i < 298 \<or> 1066 \<le> i \<longrightarrow> s' ! i = status ! i)
      \<and> (\<forall>j < 768. s' ! (298 + j) = st ! j)"
proof -
  define W where "W = (\<lambda>tid. {nat (298 + tid), nat (554 + tid), nat (810 + tid)})"
  have "\<exists>s'. for_each (status_read_thread st) lanes status = Some s' \<and> length s' = length status
           \<and> (\<forall>i. i \<notin> (\<Union>x \<in> set lanes. W x) \<longrightarrow> s' ! i = status ! i)
           \<and> (\<forall>x \<in> set lanes. \<forall>i \<in> W x. s' ! i = st ! (i - 298))"
  proof (rule for_each_updates [where W = W and V = "\<lambda>x i. st ! (i - 298)"])
    fix tid and s :: "u32 list" assume a: "tid \<in> set lanes" "length s = length status"
    then have t: "0 \<le> tid" "tid < 256" using lane_bounds by simp_all
    have run: "status_read_thread st tid s
     = Some (s[nat (298 + tid) := st ! nat tid, nat (554 + tid) := st ! nat (256 + tid),
               nat (810 + tid) := st ! nat (512 + tid)])"
      using t st len a(2) by (intro status_read_thread_Some) simp_all
    have e: "nat (298 + tid) - 298 = nat tid" "nat (554 + tid) - 298 = nat (256 + tid)"
      "nat (810 + tid) - 298 = nat (512 + tid)"
      using t by simp_all
    have b: "nat (298 + tid) < length s" "nat (554 + tid) < length s" "nat (810 + tid) < length s"
      using t len a(2) by simp_all
    have d: "nat (298 + tid) \<noteq> nat (554 + tid)" "nat (298 + tid) \<noteq> nat (810 + tid)"
      "nat (554 + tid) \<noteq> nat (810 + tid)"
      using t by simp_all
    show "\<exists>s'. status_read_thread st tid s = Some s' \<and> length s' = length status
              \<and> (\<forall>i. i \<notin> W tid \<longrightarrow> s' ! i = s ! i) \<and> (\<forall>i \<in> W tid. s' ! i = st ! (i - 298))"
      unfolding run W_def using a(2) b d e by (auto simp: nth_list_update)
  next
    show "distinct lanes" by (rule lanes_distinct)
  next
    fix x y assume a: "x \<in> set lanes" "y \<in> set lanes" "x \<noteq> y"
    then have "0 \<le> x" "x < 256" "0 \<le> y" "y < 256" using lane_bounds by simp_all
    with a(3) show "W x \<inter> W y = {}" unfolding W_def by auto
  qed simp
  then obtain s' where s': "for_each (status_read_thread st) lanes status = Some s'"
    "length s' = length status"
    "\<forall>i. i \<notin> (\<Union>x \<in> set lanes. W x) \<longrightarrow> s' ! i = status ! i"
    "\<forall>x \<in> set lanes. \<forall>i \<in> W x. s' ! i = st ! (i - 298)"
    by blast
  have frame: "s' ! i = status ! i" if "i < 298 \<or> 1066 \<le> i" for i
  proof -
    have "i \<notin> (\<Union>x \<in> set lanes. W x)"
    proof
      assume "i \<in> (\<Union>x \<in> set lanes. W x)"
      then obtain x where "x \<in> set lanes" "i \<in> W x" by blast
      then have "0 \<le> x" "x < 256" "i \<in> W x" using lane_bounds by simp_all
      with that show False unfolding W_def by auto
    qed
    then show ?thesis using s'(3) by simp
  qed
  have vals: "s' ! (298 + j) = st ! j" if "j < 768" for j
  proof -
    define x where "x = int (j mod 256)"
    have x: "0 \<le> x" "x < 256" by (simp_all add: x_def)
    then have xl: "x \<in> set lanes" by (rule lane_in)
    have dm: "j = 256 * (j div 256) + j mod 256" by simp
    have "j div 256 < 3" using that by (simp add: less_mult_imp_div_less)
    then have "j div 256 = 0 \<or> j div 256 = 1 \<or> j div 256 = 2" by linarith
    then have "j = j mod 256 \<or> j = 256 + j mod 256 \<or> j = 512 + j mod 256"
      using dm by linarith
    then have "298 + j \<in> W x" unfolding W_def x_def by auto
    then have "s' ! (298 + j) = st ! (298 + j - 298)" using s'(4) xl by blast
    then show ?thesis by simp
  qed
  show ?thesis using s'(1,2) frame vals by (simp add: status_read_def)
qed

lemma status_write_spec:
  assumes st: "768 \<le> length st" and len: "1066 \<le> length status"
  shows "\<exists>st'. status_write st status = Some st' \<and> length st' = length st
      \<and> (\<forall>j. 768 \<le> j \<longrightarrow> st' ! j = st ! j)
      \<and> (\<forall>j < 768. st' ! j = status ! (298 + j))"
proof -
  define W where "W = (\<lambda>tid. {nat tid, nat (256 + tid), nat (512 + tid)})"
  have "\<exists>s'. for_each (status_write_thread status) lanes st = Some s' \<and> length s' = length st
           \<and> (\<forall>i. i \<notin> (\<Union>x \<in> set lanes. W x) \<longrightarrow> s' ! i = st ! i)
           \<and> (\<forall>x \<in> set lanes. \<forall>i \<in> W x. s' ! i = status ! (298 + i))"
  proof (rule for_each_updates [where W = W and V = "\<lambda>x i. status ! (298 + i)"])
    fix tid and s :: "u32 list" assume a: "tid \<in> set lanes" "length s = length st"
    then have t: "0 \<le> tid" "tid < 256" using lane_bounds by simp_all
    have run: "status_write_thread status tid s
     = Some (s[nat tid := status ! nat (298 + tid), nat (256 + tid) := status ! nat (554 + tid),
                nat (512 + tid) := status ! nat (810 + tid)])"
      using t st len a(2) by (intro status_write_thread_Some) simp_all
    have e: "nat (298 + tid) = 298 + nat tid" "nat (554 + tid) = 298 + nat (256 + tid)"
      "nat (810 + tid) = 298 + nat (512 + tid)"
      using t by simp_all
    have b: "nat tid < length s" "nat (256 + tid) < length s" "nat (512 + tid) < length s"
      using t st a(2) by simp_all
    have d: "nat tid \<noteq> nat (256 + tid)" "nat tid \<noteq> nat (512 + tid)"
      "nat (256 + tid) \<noteq> nat (512 + tid)"
      using t by simp_all
    show "\<exists>s'. status_write_thread status tid s = Some s' \<and> length s' = length st
              \<and> (\<forall>i. i \<notin> W tid \<longrightarrow> s' ! i = s ! i) \<and> (\<forall>i \<in> W tid. s' ! i = status ! (298 + i))"
      unfolding run W_def e using a(2) b d by (auto simp: nth_list_update)
  next
    show "distinct lanes" by (rule lanes_distinct)
  next
    fix x y assume a: "x \<in> set lanes" "y \<in> set lanes" "x \<noteq> y"
    then have "0 \<le> x" "x < 256" "0 \<le> y" "y < 256" using lane_bounds by simp_all
    with a(3) show "W x \<inter> W y = {}" unfolding W_def by auto
  qed simp
  then obtain s' where s': "for_each (status_write_thread status) lanes st = Some s'"
    "length s' = length st"
    "\<forall>i. i \<notin> (\<Union>x \<in> set lanes. W x) \<longrightarrow> s' ! i = st ! i"
    "\<forall>x \<in> set lanes. \<forall>i \<in> W x. s' ! i = status ! (298 + i)"
    by blast
  have frame: "s' ! i = st ! i" if "768 \<le> i" for i
  proof -
    have "i \<notin> (\<Union>x \<in> set lanes. W x)"
    proof
      assume "i \<in> (\<Union>x \<in> set lanes. W x)"
      then obtain x where "x \<in> set lanes" "i \<in> W x" by blast
      then have "0 \<le> x" "x < 256" "i \<in> W x" using lane_bounds by simp_all
      with that show False unfolding W_def by auto
    qed
    then show ?thesis using s'(3) by simp
  qed
  have vals: "s' ! j = status ! (298 + j)" if "j < 768" for j
  proof -
    define x where "x = int (j mod 256)"
    have x: "0 \<le> x" "x < 256" by (simp_all add: x_def)
    then have xl: "x \<in> set lanes" by (rule lane_in)
    have dm: "j = 256 * (j div 256) + j mod 256" by simp
    have "j div 256 < 3" using that by (simp add: less_mult_imp_div_less)
    then have "j div 256 = 0 \<or> j div 256 = 1 \<or> j div 256 = 2" by linarith
    then have "j = j mod 256 \<or> j = 256 + j mod 256 \<or> j = 512 + j mod 256"
      using dm by linarith
    then have "j \<in> W x" unfolding W_def x_def by auto
    then show ?thesis using s'(4) xl by blast
  qed
  show ?thesis using s'(1,2) frame vals by (simp add: status_write_def)
qed

lemma uint32_batches_spec:
  assumes pr: "\<And>X1 X2 Y. para_rec dev X1 X2 Y bid \<noteq> None"
    and tm: "\<And>V T. temper dev V T bid \<noteq> None"
    and pos: "43 \<le> pos" "pos \<le> 214"
    and len: "1280 \<le> length status"
    and rng: "\<And>i. i \<in> set starts \<Longrightarrow>
                0 \<le> sz * int bid + i \<and> sz * int bid + i + 1024 \<le> int (length d)"
  shows "\<exists>status' d'. for_each (uint32_batch dev bid pos sz) starts (status, d) = Some (status', d')
      \<and> length status' = length status \<and> length d' = length d
      \<and> (\<forall>j. 1024 \<le> j \<longrightarrow> status' ! j = status ! j)
      \<and> (starts \<noteq> [] \<longrightarrow> d' ! nat (sz * int bid + last starts + 726)
           = the (temper dev (the (para_rec dev (status ! 1024) (status ! 1025)
                                     (status ! nat (1024 + pos)) bid))
                             (status ! nat (1023 + pos)) bid))
      \<and> (\<forall>j. (\<forall>i \<in> set starts. j < nat (sz * int bid + i) \<or> nat (sz * int bid + i + 1024) \<le> j)
              \<longrightarrow> d' ! j = d ! j)
      \<and> (\<forall>i. starts = [i] \<longrightarrow>
            status' ! 298 = the (para_rec dev (status ! 596) (status ! 597) (status ! nat (596 + pos)) bid)
          \<and> status' ! 299 = the (para_rec dev (status ! 597) (status ! 598) (status ! nat (597 + pos)) bid))"
  using len rng
proof (induction starts arbitrary: status d)
  case Nil
  then show ?case by simp
next
  case (Cons i rest)
  have "\<exists>status' d'. uint32_batch dev bid pos sz i (status, d) = Some (status', d')
      \<and> length status' = length status \<and> length d' = length d
      \<and> (\<forall>j. 1024 \<le> j \<longrightarrow> status' ! j = status ! j)
      \<and> status' ! 298 = the (para_rec dev (status ! 596) (status ! 597) (status ! nat (596 + pos)) bid)
      \<and> status' ! 299 = the (para_rec dev (status ! 597) (status ! 598) (status ! nat (597 + pos)) bid)
      \<and> d' ! nat (sz * int bid + i + 726)
           = the (temper dev (the (para_rec dev (status ! 1024) (status ! 1025)
                                     (status ! nat (1024 + pos)) bid))
                             (status ! nat (1023 + pos)) bid)
      \<and> (\<forall>j. j < nat (sz * int bid + i) \<or> nat (sz * int bid + i + 1024) \<le> j \<longrightarrow> d' ! j = d ! j)"
    using pr tm pos Cons.prems(1) Cons.prems(2) [of i]
    by (intro uint32_batch_spec) simp_all
  then obtain s1 d1 where b: "uint32_batch dev bid pos sz i (status, d) = Some (s1, d1)"
    and l1: "length s1 = length status" "length d1 = length d"
    and k1: "\<forall>j. 1024 \<le> j \<longrightarrow> s1 ! j = status ! j"
    and w1: "s1 ! 298 = the (para_rec dev (status ! 596) (status ! 597) (status ! nat (596 + pos)) bid)"
            "s1 ! 299 = the (para_rec dev (status ! 597) (status ! 598) (status ! nat (597 + pos)) bid)"
    and o1: "d1 ! nat (sz * int bid + i + 726)
           = the (temper dev (the (para_rec dev (status ! 1024) (status ! 1025)
                                     (status ! nat (1024 + pos)) bid))
                             (status ! nat (1023 + pos)) bid)"
    and f1: "\<forall>j. j < nat (sz * int bid + i) \<or> nat (sz * int bid + i + 1024) \<le> j \<longrightarrow> d1 ! j = d ! j"
    by blast
  have "\<exists>status' d'. for_each (uint32_batch dev bid pos sz) rest (s1, d1) = Some (status', d')
      \<and> length status' = length s1 \<and> length d' = length d1
      \<and> (\<forall>j. 1024 \<le> j \<longrightarrow> status' ! j = s1 ! j)
      \<and> (rest \<noteq> [] \<longrightarrow> d' ! nat (sz * int bid + last rest + 726)
           = the (temper dev (the (para_rec dev (s1 ! 1024) (s1 ! 1025)
                                     (s1 ! nat (1024 + pos)) bid))
                             (s1 ! nat (1023 + pos)) bid))
      \<and> (\<forall>j. (\<forall>i \<in> set rest. j < nat (sz * int bid + i) \<or> nat (sz * int bid + i + 1024) \<le> j)
              \<longrightarrow> d' ! j = d1 ! j)
      \<and> (\<forall>i. rest = [i] \<longrightarrow>
            status' ! 298 = the (para_rec dev (s1 ! 596) (s1 ! 597) (s1 ! nat (596 + pos)) bid)
          \<and> status' ! 299 = the (para_rec dev (s1 ! 597) (s1 ! 598) (s1 ! nat (597 + pos)) bid))"
    by (rule Cons.IH) (use Cons.prems l1 in simp_all)
  then obtain s2 d2 where r: "for_each (uint32_batch dev bid pos sz) rest (s1, d1) = Some (s2, d2)"
    and l2: "length s2 = length s1" "length d2 = length d1"
    and k2: "\<forall>j. 1024 \<le> j \<longrightarrow> s2 ! j = s1 ! j"
    and o2: "rest \<noteq> [] \<longrightarrow> d2 ! nat (sz * int bid + last rest + 726)
           = the (temper dev (the (para_rec dev (s1 ! 1024) (s1 ! 1025)
                                     (s1 ! nat (1024 + pos)) bid))
                             (s1 ! nat (1023 + pos)) bid)"
    and f2: "\<forall>j. (\<forall>i \<in> set rest. j < nat (sz * int bid + i) \<or> nat (sz * int bid + i + 1024) \<le> j)
              \<longrightarrow> d2 ! j = d1 ! j"
    by blast
  have run: "for_each (uint32_batch dev bid pos sz) (i # rest) (status, d) = Some (s2, d2)"
    using b r by simp
  have hi: "1024 \<le> nat (1024 + pos)" "1024 \<le> nat (1023 + pos)" using pos by simp_all
  have c_last: "d2 ! nat (sz * int bid + last (i # rest) + 726)
           = the (temper dev (the (para_rec dev (status ! 1024) (status ! 1025)
                                     (status ! nat (1024 + pos)) bid))
                             (status ! nat (1023 + pos)) bid)"
  proof (cases "rest = []")
    case True
    then have "s2 = s1" "d2 = d1" using r by simp_all
    then show ?thesis using True o1 by simp
  next
    case False
    then show ?thesis using o2 k1 hi by simp
  qed
  have c_frame: "\<forall>j. (\<forall>i' \<in> set (i # rest). j < nat (sz * int bid + i') \<or> nat (sz * int bid + i' + 1024) \<le> j)
              \<longrightarrow> d2 ! j = d ! j"
  proof (intro allI impI)
    fix j assume a: "\<forall>i' \<in> set (i # rest). j < nat (sz * int bid + i') \<or> nat (sz * int bid + i' + 1024) \<le> j"
    then have "d2 ! j = d1 ! j" using f2 by simp
    moreover have "j < nat (sz * int bid + i) \<or> nat (sz * int bid + i + 1024) \<le> j"
      using a by simp
    then have "d1 ! j = d ! j" using f1 by blast
    ultimately show "d2 ! j = d ! j" by simp
  qed
  have c_single: "\<forall>i'. i # rest = [i'] \<longrightarrow>
            s2 ! 298 = the (para_rec dev (status ! 596) (status ! 597) (status ! nat (596 + pos)) bid)
          \<and> s2 ! 299 = the (para_rec dev (status ! 597) (status ! 598) (status ! nat (597 + pos)) bid)"
  proof (intro allI impI)
    fix i' assume "i # rest = [i']"
    then have "rest = []" by simp
    then have "s2 = s1" using r by simp
    then show "s2 ! 298 = the (para_rec dev (status ! 596) (status ! 597) (status ! nat (596 + pos)) bid)
          \<and> s2 ! 299 = the (para_rec dev (status ! 597) (status ! 598) (status ! nat (597 + pos)) bid)"
      using w1 by simp
  qed
  have "length s2 = length status" "length d2 = length d" "\<forall>j. 1024 \<le> j \<longrightarrow> s2 ! j = status ! j"
    using l1 l2 k1 k2 by simp_all
  with run c_last c_frame c_single show ?case by blast
qed

lemma uint32_kernel_spec:
  assumes pr: "\<And>X1 X2 Y. para_rec dev X1 X2 Y bid \<noteq> None"
    and tm: "\<And>V T. temper dev V T bid \<noteq> None"
    and p: "rdn (pos_tbl dev) bid = Some p" "sint p = pos"
    and pos: "43 \<le> pos" "pos \<le> 214"
    and len: "1280 \<le> length status" and st: "768 \<le> length st"
    and starts: "batch_starts sz 0 = Some starts"
    and rng: "\<And>i. i \<in> set starts \<Longrightarrow>
                0 \<le> sz * int bid + i \<and> sz * int bid + i + 1024 \<le> int (length d)"
  shows "\<exists>st' d'. mtgp32_uint32_kernel dev bid status st d sz = Some (st', d')
      \<and> length st' = length st \<and> length d' = length d
      \<and> (\<forall>j. 726 \<le> j \<longrightarrow> st' ! j = st ! j)
      \<and> (starts \<noteq> [] \<longrightarrow> d' ! nat (sz * int bid + last starts + 726)
           = the (temper dev (the (para_rec dev (st ! 726) (st ! 727)
                                     (status ! nat (1024 + pos)) bid))
                             (status ! nat (1023 + pos)) bid))
      \<and> (\<forall>j. (\<forall>i \<in> set starts. j < nat (sz * int bid + i) \<or> nat (sz * int bid + i + 1024) \<le> j)
              \<longrightarrow> d' ! j = d ! j)
      \<and> (\<forall>i. starts = [i] \<longrightarrow>
            st' ! 0 = the (para_rec dev (st ! 298) (st ! 299) (st ! nat (298 + pos)) bid)
          \<and> st' ! 1 = the (para_rec dev (st ! 299) (st ! 300) (st ! nat (299 + pos)) bid))"
proof -
  from status_read_spec [of st status] st len
  obtain s0 where rd0: "status_read status st = Some s0" and l0: "length s0 = length status"
    and f0: "\<forall>i. i < 298 \<or> 1066 \<le> i \<longrightarrow> s0 ! i = status ! i"
    and v0: "\<forall>j < 768. s0 ! (298 + j) = st ! j"
    by auto
  have "\<exists>status' d'. for_each (uint32_batch dev bid pos sz) starts (s0, d) = Some (status', d')
      \<and> length status' = length s0 \<and> length d' = length d
      \<and> (\<forall>j. 1024 \<le> j \<longrightarrow> status' ! j = s0 ! j)
      \<and> (starts \<noteq> [] \<longrightarrow> d' ! nat (sz * int bid + last starts + 726)
           = the (temper dev (the (para_rec dev (s0 ! 1024) (s0 ! 1025)
                                     (s0 ! nat (1024 + pos)) bid))
                             (s0 ! nat (1023 + pos)) bid))
      \<and> (\<forall>j. (\<forall>i \<in> set starts. j < nat (sz * int bid + i) \<or> nat (sz * int bid + i + 1024) \<le> j)
              \<longrightarrow> d' ! j = d ! j)
      \<and> (\<forall>i. starts = [i] \<longrightarrow>
            status' ! 298 = the (para_rec dev (s0 ! 596) (s0 ! 597) (s0 ! nat (596 + pos)) bid)
          \<and> status' ! 299 = the (para_rec dev (s0 ! 597) (s0 ! 598) (s0 ! nat (597 + pos)) bid))"
    using pr tm pos len l0 rng by (intro uint32_batches_spec) simp_all
  then obtain s1 d1 where run: "for_each (uint32_batch dev bid pos sz) starts (s0, d) = Some (s1, d1)"
    and l1: "length s1 = length s0" "length d1 = length d"
    and k1: "\<forall>j. 1024 \<le> j \<longrightarrow> s1 ! j = s0 ! j"
    and o1: "starts \<noteq> [] \<longrightarrow> d1 ! nat (sz * int bid + last starts + 726)
           = the (temper dev (the (para_rec dev (s0 ! 1024) (s0 ! 1025)
                                     (s0 ! nat (1024 + pos)) bid))
                             (s0 ! nat (1023 + pos)) bid)"
    and f1: "\<forall>j. (\<forall>i \<in> set starts. j < nat (sz * int bid + i) \<or> nat (sz * int bid + i + 1024) \<le> j)
              \<longrightarrow> d1 ! j = d ! j"
    and w1: "\<forall>i. starts = [i] \<longrightarrow>
            s1 ! 298 = the (para_rec dev (s0 ! 596) (s0 ! 597) (s0 ! nat (596 + pos)) bid)
          \<and> s1 ! 299 = the (para_rec dev (s0 ! 597) (s0 ! 598) (s0 ! nat (597 + pos)) bid)"
    by blast
  from status_write_spec [of st s1] st len l0 l1
  obtain st' where wr1: "status_write st s1 = Some st'" and l2: "length st' = length st"
    and f2: "\<forall>j. 768 \<le> j \<longrightarrow> st' ! j = st ! j"
    and v2: "\<forall>j < 768. st' ! j = s1 ! (298 + j)"
    by auto
  have kern: "mtgp32_uint32_kernel dev bid status st d sz = Some (st', d1)"
    unfolding mtgp32_uint32_kernel_def
    by (simp only: p rd0 starts run wr1 Option.bind.simps Let_def prod.case)
  have rdv: "s0 ! (298 + j) = st ! j" if "j < 768" for j using v0 that by simp
  have e: "s0 ! 1024 = st ! 726" "s0 ! 1025 = st ! 727" "s0 ! 596 = st ! 298" "s0 ! 597 = st ! 299"
    "s0 ! 598 = st ! 300"
    using rdv [of 726] rdv [of 727] rdv [of 298] rdv [of 299] rdv [of 300] by simp_all
  have e2: "s0 ! nat (596 + pos) = st ! nat (298 + pos)" "s0 ! nat (597 + pos) = st ! nat (299 + pos)"
  proof -
    have "nat (596 + pos) = 298 + nat (298 + pos)" "nat (298 + pos) < 768"
      "nat (597 + pos) = 298 + nat (299 + pos)" "nat (299 + pos) < 768"
      using pos by simp_all
    then show "s0 ! nat (596 + pos) = st ! nat (298 + pos)" "s0 ! nat (597 + pos) = st ! nat (299 + pos)"
      using rdv by simp_all
  qed
  have e3: "s0 ! nat (1024 + pos) = status ! nat (1024 + pos)"
    "s0 ! nat (1023 + pos) = status ! nat (1023 + pos)"
    using f0 pos by simp_all
  have c_keep: "\<forall>j. 726 \<le> j \<longrightarrow> st' ! j = st ! j"
  proof (intro allI impI)
    fix j :: nat assume j: "726 \<le> j"
    show "st' ! j = st ! j"
    proof (cases "j < 768")
      case True
      then have "st' ! j = s1 ! (298 + j)" using v2 by simp
      also have "\<dots> = s0 ! (298 + j)" using k1 j by simp
      also have "\<dots> = st ! j" using rdv True by simp
      finally show ?thesis .
    next
      case False
      then show ?thesis using f2 by simp
    qed
  qed
  have c_out: "starts \<noteq> [] \<longrightarrow> d1 ! nat (sz * int bid + last starts + 726)
           = the (temper dev (the (para_rec dev (st ! 726) (st ! 727)
                                     (status ! nat (1024 + pos)) bid))
                             (status ! nat (1023 + pos)) bid)"
    using o1 by (simp add: e e3)
  have c_state: "\<forall>i. starts = [i] \<longrightarrow>
            st' ! 0 = the (para_rec dev (st ! 298) (st ! 299) (st ! nat (298 + pos)) bid)
          \<and> st' ! 1 = the (para_rec dev (st ! 299) (st ! 300) (st ! nat (299 + pos)) bid)"
  proof -
    have "st' ! 0 = s1 ! 298" "st' ! 1 = s1 ! 299" using v2 by simp_all
    then show ?thesis using w1 by (simp add: e e2)
  qed
  show ?thesis using kern l2 l1(2) c_keep c_out f1 c_state by blast
qed

lemma batch_starts_eq:
  assumes "int_ok i" and "sz \<le> 2 ^ 31 - LARGE_SIZE"
  shows "batch_starts sz i
     = Some (map (\<lambda>j. i + int j * LARGE_SIZE) [0..<nat ((sz - i + LARGE_SIZE - 1) div LARGE_SIZE)])"
  using assms
proof (induction sz i rule: batch_starts.induct)
  case (1 sz i)
  show ?case
  proof (cases "i < sz")
    case True
    have ok: "int_ok (i + LARGE_SIZE)"
      using True "1.prems" by (simp add: int_ok_def LARGE_SIZE_def THREAD_NUM_def)
    define m where "m = nat ((sz - (i + LARGE_SIZE) + LARGE_SIZE - 1) div LARGE_SIZE)"
    have n: "nat ((sz - i + LARGE_SIZE - 1) div LARGE_SIZE) = Suc m"
      using True by (simp add: m_def LARGE_SIZE_def THREAD_NUM_def)
    have "batch_starts sz (i + LARGE_SIZE)
       = Some (map (\<lambda>j. i + LARGE_SIZE + int j * LARGE_SIZE) [0..<m])"
      unfolding m_def using True ok "1.prems" by (intro "1.IH") simp_all
    then have "batch_starts sz i = Some (i # map (\<lambda>j. i + LARGE_SIZE + int j * LARGE_SIZE) [0..<m])"
      using True ok by (subst batch_starts.simps) simp
    also have "i # map (\<lambda>j. i + LARGE_SIZE + int j * LARGE_SIZE) [0..<m]
       = map (\<lambda>j. i + int j * LARGE_SIZE) [0..<Suc m]"
      by (simp add: map_upt_Suc algebra_simps del: upt_Suc)
    finally show ?thesis by (simp only: n)
  next
    case False
    then have "batch_starts sz i = Some []" by (subst batch_starts.simps) simp
    moreover have "nat ((sz - i + LARGE_SIZE - 1) div LARGE_SIZE) = 0"
      using False by (simp add: LARGE_SIZE_def THREAD_NUM_def)
    ultimately show ?thesis by simp
  qed
qed

lemma batch_starts_1024: "batch_starts 1024 0 = Some [0]"
  using batch_starts_eq [of 0 1024] by (simp add: int_ok_def LARGE_SIZE_def THREAD_NUM_def)

lemma batch_starts_1000: "batch_starts 1000 0 = Some [0]"
  using batch_starts_eq [of 0 1000] by (simp add: int_ok_def LARGE_SIZE_def THREAD_NUM_def)

lemma batch_starts_2048: "batch_starts 2048 0 = Some [0, 1024]"
  using batch_starts_eq [of 0 2048]
  by (simp add: int_ok_def LARGE_SIZE_def THREAD_NUM_def numeral_2_eq_2)

lemma launch2_spec:
  assumes pr: "\<And>X1 X2 Y bid. bid < 2 \<Longrightarrow> para_rec dev X1 X2 Y bid \<noteq> None"
    and tm: "\<And>V T bid. bid < 2 \<Longrightarrow> temper dev V T bid \<noteq> None"
    and p: "\<And>bid. bid < 2 \<Longrightarrow> \<exists>p. rdn (pos_tbl dev) bid = Some p \<and> sint p = pos"
    and pos: "43 \<le> pos" "pos \<le> 214"
    and len: "1280 \<le> length status" and mem: "1494 \<le> length mem"
    and starts: "batch_starts sz 0 = Some starts" "starts \<noteq> []"
    and rng: "\<And>i. i \<in> set starts \<Longrightarrow> 0 \<le> i \<and> i + 1024 \<le> sz"
    and d: "int (length d) = 2 * sz"
  shows "\<exists>mem' d'. launch_uint32 dev status 2 mem d sz = Some (mem', d')
      \<and> length mem' = length mem \<and> length d' = length d
      \<and> d' ! nat (last starts + 726)
           = the (temper dev (the (para_rec dev (mem ! 726) (mem ! 727)
                                     (status ! nat (1024 + pos)) 0))
                             (status ! nat (1023 + pos)) 0)
      \<and> (\<forall>i. starts = [i] \<longrightarrow>
            mem' ! 726 = the (para_rec dev (mem ! 1024) (mem ! 1025) (mem ! nat (1024 + pos)) 1)
          \<and> mem' ! 727 = the (para_rec dev (mem ! 1025) (mem ! 1026) (mem ! nat (1025 + pos)) 1))"
proof -
  from p [of 0] obtain p0 where p0: "rdn (pos_tbl dev) 0 = Some p0" "sint p0 = pos" by auto
  from p [of 1] obtain p1 where p1: "rdn (pos_tbl dev) 1 = Some p1" "sint p1 = pos" by auto
  have sz0: "0 < sz"
  proof -
    from starts(2) obtain i where "i \<in> set starts" by (cases starts) auto
    from rng [OF this] show ?thesis by simp
  qed
  have "\<exists>st' d'. mtgp32_uint32_kernel dev 0 status mem d sz = Some (st', d')
      \<and> length st' = length mem \<and> length d' = length d
      \<and> (\<forall>j. 726 \<le> j \<longrightarrow> st' ! j = mem ! j)
      \<and> (starts \<noteq> [] \<longrightarrow> d' ! nat (sz * int 0 + last starts + 726)
           = the (temper dev (the (para_rec dev (mem ! 726) (mem ! 727)
                                     (status ! nat (1024 + pos)) 0))
                             (status ! nat (1023 + pos)) 0))
      \<and> (\<forall>j. (\<forall>i \<in> set starts. j < nat (sz * int 0 + i) \<or> nat (sz * int 0 + i + 1024) \<le> j)
              \<longrightarrow> d' ! j = d ! j)
      \<and> (\<forall>i. starts = [i] \<longrightarrow>
            st' ! 0 = the (para_rec dev (mem ! 298) (mem ! 299) (mem ! nat (298 + pos)) 0)
          \<and> st' ! 1 = the (para_rec dev (mem ! 299) (mem ! 300) (mem ! nat (299 + pos)) 0))"
  proof (rule uint32_kernel_spec [OF _ _ p0 pos len _ starts(1)])
    show "768 \<le> length mem" using mem by simp
    show "\<And>i. i \<in> set starts \<Longrightarrow> 0 \<le> sz * int 0 + i \<and> sz * int 0 + i + 1024 \<le> int (length d)"
      using rng d sz0 by fastforce
  qed (simp_all add: pr tm)
  then obtain m0 d0 where k0: "mtgp32_uint32_kernel dev 0 status mem d sz = Some (m0, d0)"
    and l0: "length m0 = length mem" "length d0 = length d"
    and keep0: "\<forall>j. 726 \<le> j \<longrightarrow> m0 ! j = mem ! j"
    and out0: "d0 ! nat (last starts + 726)
           = the (temper dev (the (para_rec dev (mem ! 726) (mem ! 727)
                                     (status ! nat (1024 + pos)) 0))
                             (status ! nat (1023 + pos)) 0)"
    using starts(2) by auto
  define st1 where "st1 = drop 726 m0"
  have st1: "st1 ! j = mem ! (726 + j)" if "726 + j < length mem" for j
    using that keep0 l0 by (simp add: st1_def)
  have "\<exists>st' d'. mtgp32_uint32_kernel dev 1 status st1 d0 sz = Some (st', d')
      \<and> length st' = length st1 \<and> length d' = length d0
      \<and> (\<forall>j. 726 \<le> j \<longrightarrow> st' ! j = st1 ! j)
      \<and> (starts \<noteq> [] \<longrightarrow> d' ! nat (sz * int 1 + last starts + 726)
           = the (temper dev (the (para_rec dev (st1 ! 726) (st1 ! 727)
                                     (status ! nat (1024 + pos)) 1))
                             (status ! nat (1023 + pos)) 1))
      \<and> (\<forall>j. (\<forall>i \<in> set starts. j < nat (sz * int 1 + i) \<or> nat (sz * int 1 + i + 1024) \<le> j)
              \<longrightarrow> d' ! j = d0 ! j)
      \<and> (\<forall>i. starts = [i] \<longrightarrow>
            st' ! 0 = the (para_rec dev (st1 ! 298) (st1 ! 299) (st1 ! nat (298 + pos)) 1)
          \<and> st' ! 1 = the (para_rec dev (st1 ! 299) (st1 ! 300) (st1 ! nat (299 + pos)) 1))"
  proof (rule uint32_kernel_spec [OF _ _ p1 pos len _ starts(1)])
    show "768 \<le> length st1" using mem l0 by (simp add: st1_def)
    show "\<And>i. i \<in> set starts \<Longrightarrow> 0 \<le> sz * int 1 + i \<and> sz * int 1 + i + 1024 \<le> int (length d0)"
      using rng d sz0 l0 by fastforce
  qed (simp_all add: pr tm)
  then obtain s1 d1 where k1: "mtgp32_uint32_kernel dev 1 status st1 d0 sz = Some (s1, d1)"
    and l1: "length s1 = length st1" "length d1 = length d0"
    and fr1: "\<forall>j. (\<forall>i \<in> set starts. j < nat (sz * int 1 + i) \<or> nat (sz * int 1 + i + 1024) \<le> j)
              \<longrightarrow> d1 ! j = d0 ! j"
    and w1: "\<forall>i. starts = [i] \<longrightarrow>
            s1 ! 0 = the (para_rec dev (st1 ! 298) (st1 ! 299) (st1 ! nat (298 + pos)) 1)
          \<and> s1 ! 1 = the (para_rec dev (st1 ! 299) (st1 ! 300) (st1 ! nat (299 + pos)) 1)"
    by blast
  have two: "[0..<2] = [0, Suc 0]" by (simp add: numeral_2_eq_2)
  have run: "launch_uint32 dev status 2 mem d sz = Some (take 726 m0 @ s1, d1)"
    unfolding launch_uint32_def two
    using k0 k1 by (simp add: N_def st1_def)
  have c_len: "length (take 726 m0 @ s1) = length mem"
    using l0 l1 mem by (simp add: st1_def)
  have c_out: "d1 ! nat (last starts + 726)
           = the (temper dev (the (para_rec dev (mem ! 726) (mem ! 727)
                                     (status ! nat (1024 + pos)) 0))
                             (status ! nat (1023 + pos)) 0)"
  proof -
    have "last starts \<in> set starts" using starts(2) by simp
    from rng [OF this] have a: "0 \<le> last starts" "last starts + 1024 \<le> sz" by simp_all
    have "\<forall>i \<in> set starts. nat (last starts + 726) < nat (sz * int 1 + i)
            \<or> nat (sz * int 1 + i + 1024) \<le> nat (last starts + 726)"
    proof
      fix i assume "i \<in> set starts"
      from rng [OF this] a
      show "nat (last starts + 726) < nat (sz * int 1 + i)
            \<or> nat (sz * int 1 + i + 1024) \<le> nat (last starts + 726)"
        by simp
    qed
    then have "d1 ! nat (last starts + 726) = d0 ! nat (last starts + 726)"
      using fr1 by blast
    then show ?thesis using out0 by simp
  qed
  have c_mem: "\<forall>i. starts = [i] \<longrightarrow>
            (take 726 m0 @ s1) ! 726 = the (para_rec dev (mem ! 1024) (mem ! 1025) (mem ! nat (1024 + pos)) 1)
          \<and> (take 726 m0 @ s1) ! 727 = the (para_rec dev (mem ! 1025) (mem ! 1026) (mem ! nat (1025 + pos)) 1)"
  proof (intro allI impI)
    fix i assume s: "starts = [i]"
    have lt: "length (take 726 m0) = 726" using l0 mem by simp
    have a: "(take 726 m0 @ s1) ! 726 = s1 ! 0" "(take 726 m0 @ s1) ! 727 = s1 ! 1"
      using lt by (simp_all add: nth_append)
    have b: "st1 ! 298 = mem ! 1024" "st1 ! 299 = mem ! 1025" "st1 ! 300 = mem ! 1026"
      using st1 [of 298] st1 [of 299] st1 [of 300] mem by simp_all
    have c: "st1 ! nat (298 + pos) = mem ! nat (1024 + pos)" "st1 ! nat (299 + pos) = mem ! nat (1025 + pos)"
    proof -
      have "726 + nat (298 + pos) = nat (1024 + pos)" "726 + nat (299 + pos) = nat (1025 + pos)"
        "nat (1024 + pos) < length mem" "nat (1025 + pos) < length mem"
        using pos mem by simp_all
      then show "st1 ! nat (298 + pos) = mem ! nat (1024 + pos)"
        "st1 ! nat (299 + pos) = mem ! nat (1025 + pos)"
        using st1 [of "nat (298 + pos)"] st1 [of "nat (299 + pos)"] by simp_all
    qed
    show "(take 726 m0 @ s1) ! 726 = the (para_rec dev (mem ! 1024) (mem ! 1025) (mem ! nat (1024 + pos)) 1)
          \<and> (take 726 m0 @ s1) ! 727 = the (para_rec dev (mem ! 1025) (mem ! 1026) (mem ! nat (1025 + pos)) 1)"
      using w1 s by (simp add: a b c)
  qed
  show ?thesis using run c_len l1(2) l0(2) c_out c_mem by simp
qed

lemma para_rec_loaded:
  assumes "load_params heap_ok params block_num dev0 = Inr dev"
    and "bid < block_num" and "shifts_ok (params ! bid)"
  shows "para_rec dev X1 X2 Y bid = Some (next_word (params ! bid) X1 X2 Y)"
proof -
  note L = load_params_Inr [OF assms(1)]
  have s1: "rdn (sh1_tbl dev) bid = Some (word_of_int (p_sh1 (params ! bid)))"
    using assms(2) by (simp add: L(2) rdn_memcpy_to)
  have s2: "rdn (sh2_tbl dev) bid = Some (word_of_int (p_sh2 (params ! bid)))"
    using assms(2) by (simp add: L(3) rdn_memcpy_to)
  have u1: "unat (word_of_int (p_sh1 (params ! bid)) :: u32) = nat (p_sh1 (params ! bid))"
    and u2: "unat (word_of_int (p_sh2 (params ! bid)) :: u32) = nat (p_sh2 (params ! bid))"
    using assms(3) by (simp_all add: shifts_ok_def unat_shift)
  have t: "tex1Dfetch (tex_param_ref dev) (bid * 16 + unat (w AND 0xf))
           = Some (tbl (params ! bid) ! unat (w AND 0xf))" for w :: u32
    unfolding L(5) using assms(2) low4_less [of w] by (rule tex_slot)
  show ?thesis
    by (simp add: para_rec_def next_word_def Let_def s1 s2 u1 u2 t mask_const_def)
qed

lemma temper_loaded:
  assumes "load_params heap_ok params block_num dev0 = Inr dev"
    and "bid < block_num"
  shows "temper dev V T bid = Some (temperInt (params ! bid) V T)"
proof -
  note L = load_params_Inr [OF assms(1)]
  have t: "tex1Dfetch (tex_temper_ref dev) (bid * 16 + unat (w AND 0xf))
           = Some (tmp_tbl (params ! bid) ! unat (w AND 0xf))" for w :: u32
    unfolding L(6) using assms(2) low4_less [of w] by (rule tex_slot)
  show ?thesis
    by (simp add: temper_def temperInt_def t_reduce_def Let_def t)
qed

lemma pos_loaded:
  assumes "load_params heap_ok params block_num dev0 = Inr dev" and "bid < block_num"
  shows "rdn (pos_tbl dev) bid = Some (word_of_int (p_pos (params ! bid)))"
  using assms(2) by (simp add: load_params_Inr(4) [OF assms(1)] rdn_memcpy_to)

lemma example_dev_loaded:
  "load_params True [example_params, example_params] 2 device0 = Inr example_dev"
proof -
  have "\<not> isl (load_params True [example_params, example_params] 2 device0)"
  proof (rule load_params_ok)
    show "\<forall>i<2. TBL_SIZE \<le> length (tbl ([example_params, example_params] ! i))
            \<and> TBL_SIZE \<le> length (tmp_tbl ([example_params, example_params] ! i))
            \<and> TBL_SIZE \<le> length (flt_tmp_tbl ([example_params, example_params] ! i))"
      by (simp add: TBL_SIZE_def example_params_def nth_Cons split: nat.split)
  qed (simp_all add: BLOCK_NUM_MAX_def)
  then show ?thesis
    unfolding example_dev_def
    by (cases "load_params True [example_params, example_params] 2 device0") auto
qed

lemma example_nth: "bid < 2 \<Longrightarrow> [example_params, example_params] ! bid = example_params"
  by (cases bid) simp_all

lemma example_para_rec:
  "bid < 2 \<Longrightarrow> para_rec example_dev X1 X2 Y bid = Some (next_word example_params X1 X2 Y)"
  using para_rec_loaded [OF example_dev_loaded, of bid X1 X2 Y]
  by (simp add: example_nth shifts_ok_def) (simp add: example_params_def)

lemma example_temper:
  "bid < 2 \<Longrightarrow> temper example_dev V T bid = Some (temperInt example_params V T)"
  using temper_loaded [OF example_dev_loaded, of bid V T] by (simp add: example_nth)

lemma example_pos:
  "bid < 2 \<Longrightarrow> \<exists>p. rdn (pos_tbl example_dev) bid = Some p \<and> sint p = 84"
  using pos_loaded [OF example_dev_loaded, of bid]
  by (simp add: example_nth) (simp add: example_params_def)

lemma next_word_222: "next_word example_params 2 2 2 = 0xdfa8a7c3"
  by (simp add: next_word_def example_params_def Let_def)

lemma example_mem_nth:
  "example_mem ! 726 = 2" "example_mem ! 727 = 2" "example_mem ! 1024 = 2" "example_mem ! 1025 = 2"
  "example_mem ! 1026 = 2" "example_mem ! 1108 = 2" "example_mem ! 1109 = 2"
  "length example_mem = 1494"
  by (simp_all add: example_mem_def nth_append)

lemma example_launch:
  assumes "length mem = 1494" and "batch_starts sz 0 = Some starts" and "starts \<noteq> []"
    and "\<And>i. i \<in> set starts \<Longrightarrow> 0 \<le> i \<and> i + 1024 \<le> sz"
  shows "\<exists>mem' d'. launch_uint32 example_dev example_shared 2 mem (replicate (2 * nat sz) 0) sz
           = Some (mem', d')
      \<and> length mem' = 1494 \<and> length d' = 2 * nat sz
      \<and> d' ! nat (last starts + 726)
           = temperInt example_params (next_word example_params (mem ! 726) (mem ! 727) 0) 0
      \<and> (\<forall>i. starts = [i] \<longrightarrow>
            mem' ! 726 = next_word example_params (mem ! 1024) (mem ! 1025) (mem ! 1108)
          \<and> mem' ! 727 = next_word example_params (mem ! 1025) (mem ! 1026) (mem ! 1109))"
proof -
  have sz0: "0 < sz"
  proof -
    from assms(3) obtain i where "i \<in> set starts" by (cases starts) auto
    from assms(4) [OF this] show ?thesis by simp
  qed
  have "\<exists>mem' d'. launch_uint32 example_dev example_shared 2 mem (replicate (2 * nat sz) 0) sz
           = Some (mem', d')
      \<and> length mem' = length mem \<and> length d' = length (replicate (2 * nat sz) (0 :: u32))
      \<and> d' ! nat (last starts + 726)
           = the (temper example_dev (the (para_rec example_dev (mem ! 726) (mem ! 727)
                                     (example_shared ! nat (1024 + 84)) 0))
                             (example_shared ! nat (1023 + 84)) 0)
      \<and> (\<forall>i. starts = [i] \<longrightarrow>
            mem' ! 726 = the (para_rec example_dev (mem ! 1024) (mem ! 1025) (mem ! nat (1024 + 84)) 1)
          \<and> mem' ! 727 = the (para_rec example_dev (mem ! 1025) (mem ! 1026) (mem ! nat (1025 + 84)) 1))"
  proof (rule launch2_spec [OF _ _ _ _ _ _ _ assms(2,3)])
    show "\<And>bid. bid < 2 \<Longrightarrow> \<exists>p. rdn (pos_tbl example_dev) bid = Some p \<and> sint p = 84"
      by (rule example_pos)
    show "int (length (replicate (2 * nat sz) (0 :: u32))) = 2 * sz" using sz0 by simp
  qed (use assms(1,4) in \<open>simp_all add: example_para_rec example_temper example_shared_def\<close>)
  then show ?thesis
    using assms(1) by (simp add: example_para_rec example_temper example_shared_def)
qed

lemma round_up_bound:
  fixes sz :: int
  assumes "0 < sz" "sz \<le> 2 ^ 31 - LARGE_SIZE"
  shows "LARGE_SIZE * ((sz + LARGE_SIZE - 1) div LARGE_SIZE) \<le> 2 ^ 31 - LARGE_SIZE"
    and "(LARGE_SIZE * ((sz + LARGE_SIZE - 1) div LARGE_SIZE) + LARGE_SIZE - 1) div LARGE_SIZE
         = (sz + LARGE_SIZE - 1) div LARGE_SIZE"
  using assms by (simp_all add: LARGE_SIZE_def THREAD_NUM_def)

lemma uint32_batch_stream0:
  "uint32_batch dev 0 pos sz = uint32_batch dev 0 pos sz'"
  by (simp add: uint32_batch_def fun_eq_iff)

section \<open>Recurrence and tempering against the specification\<close>

text \<open>
  Claim C3. For every 32-bit \<open>X1\<close>, \<open>X2\<close>, \<open>Y\<close> and every loaded parameter set
  with shifts in \<open>[1, 31]\<close>, \<open>para_rec\<close> returns a value (it is total and depends on
  nothing but its arguments and the loaded tables), and the value is the one obtained
  by \<open>x = (X1 & 0xff800000) ^ X2\<close>, \<open>x ^= x << sh1\<close>, \<open>y = x ^ (Y >> sh2)\<close>,
  \<open>y ^ paramTable[y & 0xF]\<close>: the correction is selected by the low 4 bits of \<open>y\<close>.
\<close>

theorem para_rec_next_word:
  assumes "load_params heap_ok params block_num dev0 = Inr dev"
    and "bid < block_num" and "shifts_ok (params ! bid)"
  shows "para_rec dev X1 X2 Y bid = Some (next_word (params ! bid) X1 X2 Y)"
proof -
  note L = load_params_Inr [OF assms(1)]
  have s1: "rdn (sh1_tbl dev) bid = Some (word_of_int (p_sh1 (params ! bid)))"
    using assms(2) by (simp add: L(2) rdn_memcpy_to)
  have s2: "rdn (sh2_tbl dev) bid = Some (word_of_int (p_sh2 (params ! bid)))"
    using assms(2) by (simp add: L(3) rdn_memcpy_to)
  have u1: "unat (word_of_int (p_sh1 (params ! bid)) :: u32) = nat (p_sh1 (params ! bid))"
    and u2: "unat (word_of_int (p_sh2 (params ! bid)) :: u32) = nat (p_sh2 (params ! bid))"
    using assms(3) by (simp_all add: shifts_ok_def unat_shift)
  have t: "tex1Dfetch (tex_param_ref dev) (bid * 16 + unat (w AND 0xf))
           = Some (tbl (params ! bid) ! unat (w AND 0xf))" for w :: u32
    unfolding L(5) using assms(2) low4_less [of w] by (rule tex_slot)
  show ?thesis
    by (simp add: para_rec_def next_word_def Let_def s1 s2 u1 u2 t mask_const_def)
qed

theorem para_rec_next_word_witness:
  "para_rec (projr (load_params True [example_params] 1 device0)) 0x12345678 0x9abcdef0 0x0f1e2d3c 0
   = Some (next_word example_params 0x12345678 0x9abcdef0 0x0f1e2d3c)"
  using para_rec_next_word [OF example_loaded, of 0]
  by (simp add: shifts_ok_def example_params_def)

text \<open>
  Claim C5. For every 32-bit \<open>V\<close> and \<open>T\<close>, \<open>temper\<close> returns \<open>V\<close> XOR
  \<open>temperTable[t & 0xF]\<close> with \<open>t = T ^ (T >> 16)\<close> followed by \<open>t = t ^ (t >> 8)\<close>;
  it returns a value on all inputs.
\<close>

theorem temper_temperInt:
  assumes "load_params heap_ok params block_num dev0 = Inr dev"
    and "bid < block_num"
  shows "temper dev V T bid = Some (temperInt (params ! bid) V T)"
proof -
  note L = load_params_Inr [OF assms(1)]
  have t: "tex1Dfetch (tex_temper_ref dev) (bid * 16 + unat (w AND 0xf))
           = Some (tmp_tbl (params ! bid) ! unat (w AND 0xf))" for w :: u32
    unfolding L(6) using assms(2) low4_less [of w] by (rule tex_slot)
  show ?thesis
    by (simp add: temper_def temperInt_def t_reduce_def Let_def t)
qed

theorem temper_temperInt_witness:
  "temper (projr (load_params True [example_params] 1 device0)) 0x12345678 0x9abcdef0 0
   = Some (temperInt example_params 0x12345678 0x9abcdef0)"
  using temper_temperInt [OF example_loaded, of 0] by simp

text \<open>
  Claim C6. For every 32-bit \<open>V\<close> and \<open>T\<close>, \<open>temper_single\<close> returns
  \<open>(V >> 9)\<close> XOR \<open>floatTemperTable[t & 0xF]\<close> with the same reduction of \<open>t\<close>; and
  when every entry of the float table has the upper 9 bits of \<open>0x3F800000\<close>, the
  result lies in the integer range \<open>[0x3F800000, 0x40000000)\<close> and, read as an
  IEEE-754 single-precision number, in \<open>[1.0, 2.0)\<close>.
\<close>

theorem temper_single_temperFloat:
  assumes "load_params heap_ok params block_num dev0 = Inr dev"
    and "bid < block_num"
  shows "temper_single dev V T bid = Some (temperFloat (params ! bid) V T)
       \<and> ((\<forall>e \<in> set (flt_tmp_tbl (params ! bid)). drop_bit 23 e = drop_bit 23 (0x3F800000 :: u32))
          \<longrightarrow> 0x3F800000 \<le> temperFloat (params ! bid) V T
              \<and> temperFloat (params ! bid) V T < 0x40000000
              \<and> (case ieee_single (temperFloat (params ! bid) V T) of
                    None \<Rightarrow> False | Some v \<Rightarrow> 1 \<le> v \<and> v < 2))"
proof (intro conjI impI)
  note L = load_params_Inr [OF assms(1)]
  have t: "tex1Dfetch (tex_single_ref dev) (bid * 16 + unat (w AND 0xf))
           = Some (flt_tmp_tbl (params ! bid) ! unat (w AND 0xf))" for w :: u32
    unfolding L(7) using assms(2) low4_less [of w] by (rule tex_slot)
  show "temper_single dev V T bid = Some (temperFloat (params ! bid) V T)"
    by (simp add: temper_single_def temperFloat_def t_reduce_def Let_def t)
next
  assume a: "\<forall>e \<in> set (flt_tmp_tbl (params ! bid)). drop_bit 23 e = drop_bit 23 (0x3F800000 :: u32)"
  define j where "j = unat (t_reduce T AND 0xF)"
  have "j < 16" unfolding j_def by (rule low4_less)
  then have "j < length (flt_tmp_tbl (params ! bid))"
    using load_params_tbl_len [OF assms] by (simp add: TBL_SIZE_def)
  then have "flt_tmp_tbl (params ! bid) ! j \<in> set (flt_tmp_tbl (params ! bid))" by simp
  with a have e: "drop_bit 23 (flt_tmp_tbl (params ! bid) ! j) = (0x7F :: u32)" by simp
  have "drop_bit 23 (drop_bit 9 V) = (0 :: u32)"
    by (simp add: drop_bit_drop_bit)
  then have d: "drop_bit 23 (temperFloat (params ! bid) V T) = 0x7F"
    unfolding temperFloat_def j_def [symmetric] by (simp add: e)
  then have r: "0x3F800000 \<le> temperFloat (params ! bid) V T \<and> temperFloat (params ! bid) V T < 0x40000000"
    by (rule exp_field_range)
  from r show "0x3F800000 \<le> temperFloat (params ! bid) V T" ..
  from r show "temperFloat (params ! bid) V T < 0x40000000" ..
  from d show "case ieee_single (temperFloat (params ! bid) V T) of
                 None \<Rightarrow> False | Some v \<Rightarrow> 1 \<le> v \<and> v < 2"
    by (rule ieee_single_unit_range)
qed

theorem temper_single_temperFloat_witness:
  "temper_single (projr (load_params True [example_params] 1 device0)) 0x12345678 0x9abcdef0 0
   = Some (temperFloat example_params 0x12345678 0x9abcdef0)
   \<and> 0x3F800000 \<le> temperFloat example_params 0x12345678 0x9abcdef0
   \<and> temperFloat example_params 0x12345678 0x9abcdef0 < 0x40000000
   \<and> (case ieee_single (temperFloat example_params 0x12345678 0x9abcdef0) of
         None \<Rightarrow> False | Some v \<Rightarrow> 1 \<le> v \<and> v < 2)"
proof -
  have "\<forall>e \<in> set (flt_tmp_tbl example_params). drop_bit 23 e = drop_bit 23 (0x3F800000 :: u32)"
    by (simp add: example_params_def)
  with temper_single_temperFloat [OF example_loaded, of 0 "0x12345678" "0x9abcdef0"]
  show ?thesis by simp
qed

section \<open>Loading and saving the state\<close>

text \<open>
  Claim C4. \<open>status_read\<close> is to copy exactly the \<open>N = 726\<close> saved words, in order,
  into the last \<open>N\<close> slots of the working buffer, reading only those words, and
  \<open>status_write\<close> is to copy them back. The guard of the third copy is
  \<open>tid < N - THREAD_NUM\<close>, which holds for every lane, so lane 214 copies between
  \<open>status[LARGE_SIZE]\<close> and \<open>d_status[bid].status[N]\<close>, one past the end of both
  arrays: on a saved state of \<open>N\<close> words and a buffer of \<open>LARGE_SIZE\<close> words neither
  function has a defined result.
\<close>

theorem status_copy_out_of_bounds:
  assumes "length st \<le> nat N" and "length status \<le> nat LARGE_SIZE"
  shows "last (status_read_idx 214) = (LARGE_SIZE, N)
       \<and> last (status_write_idx 214) = (LARGE_SIZE, N)
       \<and> status_read status st = None
       \<and> status_write st status = None"
proof (intro conjI)
  show "last (status_read_idx 214) = (LARGE_SIZE, N)"
    by (simp add: status_read_idx_def LARGE_SIZE_def THREAD_NUM_def N_def)
  show "last (status_write_idx 214) = (LARGE_SIZE, N)"
    by (simp add: status_write_idx_def LARGE_SIZE_def THREAD_NUM_def N_def)
  show "status_read status st = None"
    using assms(1) by (rule status_read_None)
  show "status_write st status = None"
    using assms(2) by (rule status_write_None)
qed

theorem status_copy_out_of_bounds_witness:
  "status_read (replicate 1024 0) (replicate 726 1) = None
   \<and> status_write (replicate 726 1) (replicate 1024 0) = None"
  using status_copy_out_of_bounds [of "replicate 726 1" "replicate 1024 0"]
  by (simp add: N_def LARGE_SIZE_def THREAD_NUM_def)

section \<open>The kernels\<close>

text \<open>
  Claim C1. The output of \<open>mtgp32_uint32_kernel\<close> is to equal the output of the
  sequential recurrence. Phase 3 of this kernel indexes the buffer at
  \<open>6 * THREAD_NUM - N + tid\<close> without reduction modulo \<open>LARGE_SIZE\<close>, which is
  \<open>LARGE_SIZE\<close> or more from lane 214 on: whatever the buffer holds and whatever
  \<open>pos\<close> is, phase 3 and with it every batch of the kernel has no defined result.
\<close>

theorem uint32_batch_out_of_bounds:
  assumes "length status \<le> nat LARGE_SIZE"
  shows "phase temper dev bid (uint32_taps3 pos) k (status, d_data) = None
       \<and> uint32_batch dev bid pos sz i (status, d_data) = None"
  using assms by (simp add: uint32_phase3_None uint32_batch_None)

theorem uint32_batch_out_of_bounds_witness:
  "uint32_batch (projr (load_params True [example_params] 1 device0)) 0 84 1024 0
     (replicate 1024 1, replicate 1024 0) = None"
  using uint32_batch_out_of_bounds [of "replicate 1024 1"]
  by (simp add: LARGE_SIZE_def THREAD_NUM_def)

text \<open>
  Claim C2. Two launches of \<open>mtgp32_uint32_kernel\<close>, with sizes \<open>A\<close> and \<open>B\<close>, are
  to give each stream the output of one launch with size \<open>A + B\<close>. The third copy of
  \<open>status_read\<close> loads, for the lanes from 214 on, the 42 words that follow the state
  of the stream in memory, the first words of the next stream, and the unreduced
  phase 3 reads them as history. With two streams (sample parameters, all words of
  stream 0 equal to 1, all words of stream 1 equal to 2, sizes \<open>A = B = 1024\<close>) every
  launch has a result on the device memory, and the 2048 words stream 0 receives from
  the two launches are not the 2048 words it receives from the single one: between the
  two launches stream 1 has advanced, and word 726 of the second launch is computed
  from its new words where word 1750 of the single launch is computed from its old
  ones.
\<close>

theorem continuity_broken_by_following_stream:
  "case (launch_A_then_B example_dev example_shared 2 example_mem 1024 1024,
         launch_A_plus_B example_dev example_shared 2 example_mem 1024 1024) of
     (Some (mem2, d_A, d_B), Some (mem', d_AB)) \<Rightarrow>
        stream_output d_A 1024 0 @ stream_output d_B 1024 0 \<noteq> stream_output d_AB 2048 0
   | _ \<Rightarrow> False"
proof -
  have r1: "\<And>i. i \<in> set [0 :: int] \<Longrightarrow> 0 \<le> i \<and> i + 1024 \<le> 1024" by simp
  have r2: "\<And>i. i \<in> set [0 :: int, 1024] \<Longrightarrow> 0 \<le> i \<and> i + 1024 \<le> 2048" by auto
  from example_launch [OF example_mem_nth(8) batch_starts_1024 _ r1]
  obtain mem1 d_A where A: "launch_uint32 example_dev example_shared 2 example_mem
        (replicate (2 * nat 1024) 0) 1024 = Some (mem1, d_A)"
    and lA: "length mem1 = 1494" "length d_A = 2 * nat 1024"
    and m1: "mem1 ! 726 = next_word example_params 2 2 2" "mem1 ! 727 = next_word example_params 2 2 2"
    by (auto simp: example_mem_nth)
  from example_launch [OF lA(1) batch_starts_1024 _ r1]
  obtain mem2 d_B where B: "launch_uint32 example_dev example_shared 2 mem1
        (replicate (2 * nat 1024) 0) 1024 = Some (mem2, d_B)"
    and lB: "length d_B = 2 * nat 1024"
    and oB: "d_B ! nat (last [0] + 726)
        = temperInt example_params (next_word example_params (mem1 ! 726) (mem1 ! 727) 0) 0"
    by auto
  from example_launch [OF example_mem_nth(8) batch_starts_2048 _ r2]
  obtain mem' d_AB where AB: "launch_uint32 example_dev example_shared 2 example_mem
        (replicate (2 * nat 2048) 0) 2048 = Some (mem', d_AB)"
    and lAB: "length d_AB = 2 * nat 2048"
    and oAB: "d_AB ! nat (last [0, 1024] + 726)
        = temperInt example_params (next_word example_params 2 2 0) 0"
    by (auto simp: example_mem_nth)
  have vB: "d_B ! 726 = 0x24a49351"
    using oB by (simp add: m1 next_word_222)
       (simp add: next_word_def temperInt_def t_reduce_def example_params_def Let_def)
  have vAB: "d_AB ! 1750 = 0xdfa8a7c3"
    using oAB by (simp add: next_word_def temperInt_def t_reduce_def example_params_def Let_def)
  have two: "launch_A_then_B example_dev example_shared 2 example_mem 1024 1024
      = Some (mem2, d_A, d_B)"
    using A B by (simp add: launch_A_then_B_def)
  have one: "launch_A_plus_B example_dev example_shared 2 example_mem 1024 1024
      = Some (mem', d_AB)"
    using AB by (simp add: launch_A_plus_B_def)
  have ne: "d_B ! 726 \<noteq> d_AB ! 1750" unfolding vB vAB by simp
  have l: "(stream_output d_A 1024 0 @ stream_output d_B 1024 0) ! 1750 = d_B ! 726"
    using lA lB by (simp add: stream_output_def nth_append)
  have r: "stream_output d_AB 2048 0 ! 1750 = d_AB ! 1750"
    using lAB by (simp add: stream_output_def)
  have "stream_output d_A 1024 0 @ stream_output d_B 1024 0 \<noteq> stream_output d_AB 2048 0"
  proof
    assume "stream_output d_A 1024 0 @ stream_output d_B 1024 0 = stream_output d_AB 2048 0"
    then have "(stream_output d_A 1024 0 @ stream_output d_B 1024 0) ! 1750
        = stream_output d_AB 2048 0 ! 1750"
      by (rule arg_cong)
    then show False using l r ne by simp
  qed
  then show ?thesis by (simp add: two one)
qed

text \<open>
  Claim C10. The two kernels are to advance the state in the same way and to differ in
  the tempering only. Their index expressions differ. On any buffer of \<open>LARGE_SIZE\<close>
  words, phase 3 of the single-precision kernel, which reduces its indices modulo
  \<open>LARGE_SIZE\<close>, has a defined result, and phase 3 of the integer kernel, which does
  not, has none; in phase 2 it is the integer kernel that reduces, and from
  \<open>pos = 215\<close> on the single-precision kernel leaves the buffer there.
\<close>

theorem kernels_index_differently:
  assumes "load_params heap_ok params block_num dev0 = Inr dev" and "bid < block_num"
    and "length status = nat LARGE_SIZE" and "1 \<le> pos"
    and "\<forall>tid \<in> set lanes. 0 \<le> k tid \<and> k tid < int (length d_data)"
  shows "phase temper_single dev bid (single_taps3 pos) k (status, d_data) \<noteq> None
       \<and> phase temper dev bid (uint32_taps3 pos) k (status, d_data) = None
       \<and> (215 \<le> pos \<longrightarrow>
            phase temper dev bid (uint32_taps2 pos) k (status, d_data) \<noteq> None
          \<and> phase temper_single dev bid (single_taps2 pos) k (status, d_data) = None)"
proof (intro conjI impI)
  show "phase temper_single dev bid (single_taps3 pos) k (status, d_data) \<noteq> None"
  proof (rule phase_defined [OF assms(3)])
    fix tid assume "tid \<in> set lanes"
    then show "taps_in_bounds (single_taps3 pos tid)"
      using lane_range [of tid] assms(4) by (simp add: taps_wrapped_in_bounds)
  qed (use assms in \<open>simp_all add: para_rec_defined temper_single_defined\<close>)
  show "phase temper dev bid (uint32_taps2 pos) k (status, d_data) \<noteq> None"
  proof (rule phase_defined [OF assms(3)])
    fix tid assume "tid \<in> set lanes"
    then show "taps_in_bounds (uint32_taps2 pos tid)"
      using lane_range [of tid] assms(4) by (simp add: taps_wrapped_in_bounds)
  qed (use assms in \<open>simp_all add: para_rec_defined temper_defined\<close>)
  show "phase temper dev bid (uint32_taps3 pos) k (status, d_data) = None"
    using assms(3) by (simp add: uint32_phase3_None)
next
  assume p: "215 \<le> pos"
  show "phase temper_single dev bid (single_taps2 pos) k (status, d_data) = None"
  proof (rule phase_None_tap [where tid = 255])
    show "single_taps2 pos 255 = (5 * THREAD_NUM - N + 255, 5 * THREAD_NUM - N + 255 + 1,
      5 * THREAD_NUM - N + 255 + pos, 255 + THREAD_NUM, 5 * THREAD_NUM - N + 255 + pos - 1)"
      by (simp add: single_taps2_def)
    show "rd status (5 * THREAD_NUM - N + 255) = None \<or> rd status (5 * THREAD_NUM - N + 255 + 1) = None
        \<or> rd status (5 * THREAD_NUM - N + 255 + pos) = None"
      using assms(3) p by (simp add: rd_def THREAD_NUM_def N_def LARGE_SIZE_def)
  qed (simp_all add: THREAD_NUM_def)
qed

theorem kernels_index_differently_witness:
  "phase temper_single (projr (load_params True [example_params] 1 device0)) 0 (single_taps3 215)
     (\<lambda>tid. 2 * THREAD_NUM + tid) (replicate 1024 1, replicate 1024 0) \<noteq> None
   \<and> phase temper (projr (load_params True [example_params] 1 device0)) 0 (uint32_taps3 215)
     (\<lambda>tid. 2 * THREAD_NUM + tid) (replicate 1024 1, replicate 1024 0) = None
   \<and> phase temper (projr (load_params True [example_params] 1 device0)) 0 (uint32_taps2 215)
     (\<lambda>tid. 2 * THREAD_NUM + tid) (replicate 1024 1, replicate 1024 0) \<noteq> None
   \<and> phase temper_single (projr (load_params True [example_params] 1 device0)) 0 (single_taps2 215)
     (\<lambda>tid. 2 * THREAD_NUM + tid) (replicate 1024 1, replicate 1024 0) = None"
proof -
  have k: "\<forall>tid \<in> set lanes. 0 \<le> 2 * THREAD_NUM + tid
             \<and> 2 * THREAD_NUM + tid < int (length (replicate 1024 (0 :: u32)))"
  proof
    fix tid assume "tid \<in> set lanes"
    then have "0 \<le> tid \<and> tid < THREAD_NUM" by (rule lane_range)
    then show "0 \<le> 2 * THREAD_NUM + tid
             \<and> 2 * THREAD_NUM + tid < int (length (replicate 1024 (0 :: u32)))"
      by (simp add: THREAD_NUM_def)
  qed
  have l: "length (replicate 1024 (1 :: u32)) = nat LARGE_SIZE"
    by (simp add: LARGE_SIZE_def THREAD_NUM_def)
  show ?thesis
    using kernels_index_differently [OF example_loaded _ l _ k, of 0 215] by simp
qed

text \<open>
  Claim C9. Every index into the shared buffer and into the saved state is to lie inside
  the array, for every lane and every \<open>pos\<close> in \<open>[1, N - 1]\<close>. For every such
  \<open>pos\<close>: the lanes from 214 on of \<open>status_read\<close> and \<open>status_write\<close> index the
  buffer at \<open>LARGE_SIZE\<close> or beyond and the saved state at \<open>N\<close> or beyond; the
  lanes from 213 on of phase 3 of \<open>mtgp32_uint32_kernel\<close> index the buffer at
  \<open>LARGE_SIZE\<close> or beyond; and so does a lane of phase 2 of \<open>mtgp32_single_kernel\<close>
  when \<open>tid + pos \<ge> 470\<close>.
\<close>

theorem indices_out_of_bounds:
  assumes "0 \<le> tid" and "tid < THREAD_NUM" and "1 \<le> pos" and "pos \<le> N - 1"
  shows "(214 \<le> tid \<longrightarrow>
            \<not> copies_in_bounds (status_read_idx tid) \<and> \<not> copies_in_bounds (status_write_idx tid))
       \<and> (213 \<le> tid \<longrightarrow> \<not> taps_in_bounds (uint32_taps3 pos tid))
       \<and> (470 \<le> tid + pos \<longrightarrow> \<not> taps_in_bounds (single_taps2 pos tid))"
  using assms
  by (simp add: copies_in_bounds_def status_read_idx_def status_write_idx_def taps_in_bounds_def
      uint32_taps3_def single_taps2_def N_def THREAD_NUM_def LARGE_SIZE_def)

theorem indices_out_of_bounds_witness:
  "\<not> copies_in_bounds (status_read_idx 214) \<and> \<not> copies_in_bounds (status_write_idx 214)
   \<and> \<not> taps_in_bounds (uint32_taps3 84 213) \<and> \<not> taps_in_bounds (single_taps2 215 255)"
  using indices_out_of_bounds [of 214 84] indices_out_of_bounds [of 213 84]
    indices_out_of_bounds [of 255 215]
  by (simp add: THREAD_NUM_def N_def)

section \<open>Counts and parameters are not validated\<close>

text \<open>
  Claim C7, as amended. No count is validated and nothing is rejected. \<open>main\<close>, for
  \<open>block_num\<close> in \<open>[1, 128]\<close> and a non-negative \<open>num_data\<close> (with the sum in the
  range of \<open>int\<close>), replaces \<open>num_data\<close> by the next multiple of
  \<open>LARGE_SIZE * block_num\<close>. The kernel takes any size: for
  \<open>0 < size \<le> 2\<^sup>3\<^sup>1 - LARGE_SIZE\<close> its loop runs the batches
  \<open>i = 0, LARGE_SIZE, \<dots>\<close> below \<open>size\<close>, one full batch for every started
  \<open>LARGE_SIZE\<close> words, and for stream 0 a launch with \<open>size\<close> is the launch with
  \<open>size\<close> rounded up to the next multiple of \<open>LARGE_SIZE\<close>. \<open>make_uint32_random\<close>
  hands \<open>num_data / block_num\<close> to the kernel without a check: with one stream its
  result is the result of the kernel on an output array of \<open>num_data\<close> words.
\<close>

theorem count_not_validated:
  assumes "1 \<le> block_num" "block_num \<le> int BLOCK_NUM_MAX" "0 \<le> num_data"
    and "num_data + LARGE_SIZE * block_num < 2 ^ 31"
    and "0 < sz" "sz \<le> 2 ^ 31 - LARGE_SIZE"
  shows "main_num_data num_data block_num
           = Inr (LARGE_SIZE * block_num
                  * ((num_data + LARGE_SIZE * block_num - 1) div (LARGE_SIZE * block_num)))
       \<and> batch_starts sz 0
           = Some (map (\<lambda>j. int j * LARGE_SIZE) [0..<nat ((sz + LARGE_SIZE - 1) div LARGE_SIZE)])
       \<and> mtgp32_uint32_kernel dev 0 status st d_data sz
           = mtgp32_uint32_kernel dev 0 status st d_data
               (LARGE_SIZE * ((sz + LARGE_SIZE - 1) div LARGE_SIZE))
       \<and> make_uint32_random True dev status [st] sz 1
           = (case mtgp32_uint32_kernel dev 0 status st (replicate (nat sz) 0) sz of
                None \<Rightarrow> Inl OutOfBounds
              | Some (st', d) \<Rightarrow> Inr ([st'], d))"
proof (intro conjI)
  define u where "u = LARGE_SIZE * block_num"
  have u: "0 < u" using assms(1) by (simp add: u_def LARGE_SIZE_def THREAD_NUM_def)
  have r: "num_data smod u = num_data mod u"
    using assms(3) u by (simp add: smod_mod_positive)
  have b: "0 \<le> num_data mod u" "num_data mod u < u" using u by simp_all
  have ok: "int_ok (num_data + u)" "int_ok (num_data + u - num_data mod u)"
    using assms(3,4) b u by (simp_all add: int_ok_def u_def)
  have "main_num_data num_data block_num
          = Inr (if num_data mod u = 0 then num_data else num_data + u - num_data mod u)"
    using assms(1,2) ok by (simp add: main_num_data_def Let_def r u_def [symmetric])
  also have "\<dots> = Inr (u * ((num_data + u - 1) div u))"
    using round_up_div [OF u, of num_data] by simp
  finally show "main_num_data num_data block_num
           = Inr (LARGE_SIZE * block_num
                  * ((num_data + LARGE_SIZE * block_num - 1) div (LARGE_SIZE * block_num)))"
    by (simp add: u_def)
next
  have ok0: "int_ok 0" by (simp add: int_ok_def)
  show s: "batch_starts sz 0
           = Some (map (\<lambda>j. int j * LARGE_SIZE) [0..<nat ((sz + LARGE_SIZE - 1) div LARGE_SIZE)])"
    using batch_starts_eq [OF ok0 assms(6)] by simp
  define sz' where "sz' = LARGE_SIZE * ((sz + LARGE_SIZE - 1) div LARGE_SIZE)"
  have "batch_starts sz' 0
           = Some (map (\<lambda>j. int j * LARGE_SIZE) [0..<nat ((sz' + LARGE_SIZE - 1) div LARGE_SIZE)])"
    using batch_starts_eq [OF ok0, of sz'] round_up_bound(1) [OF assms(5,6)]
    by (simp add: sz'_def)
  then have "batch_starts sz' 0 = batch_starts sz 0"
    using s round_up_bound(2) [OF assms(5,6)] by (simp add: sz'_def)
  then show "mtgp32_uint32_kernel dev 0 status st d_data sz
           = mtgp32_uint32_kernel dev 0 status st d_data
               (LARGE_SIZE * ((sz + LARGE_SIZE - 1) div LARGE_SIZE))"
    unfolding mtgp32_uint32_kernel_def sz'_def [symmetric]
    by (simp add: uint32_batch_stream0 [of dev _ sz sz'])
next
  show "make_uint32_random True dev status [st] sz 1
           = (case mtgp32_uint32_kernel dev 0 status st (replicate (nat sz) 0) sz of
                None \<Rightarrow> Inl OutOfBounds
              | Some (st', d) \<Rightarrow> Inr ([st'], d))"
    by (simp add: make_uint32_random_def rdn_def split: option.splits)
qed

theorem count_not_validated_witness:
  "main_num_data 1000 1 = Inr 1024
   \<and> batch_starts 1000 0 = Some [0]
   \<and> mtgp32_uint32_kernel example_dev 0 example_shared example_mem (replicate 1024 0) 1000
     = mtgp32_uint32_kernel example_dev 0 example_shared example_mem (replicate 1024 0) 1024"
  using count_not_validated [of 1 1000 1000 example_dev example_shared example_mem "replicate 1024 0"]
  by (simp add: BLOCK_NUM_MAX_def LARGE_SIZE_def THREAD_NUM_def)

text \<open>
  Claim C7 as stated fails: given the size 1000, which is not a multiple of
  \<open>LARGE_SIZE\<close>, the kernel (stream 0 of the sample memory, an output array with room
  for the batch) does not refuse: it returns output words and a saved state whose first
  word has changed from 1 to \<open>0x71589352\<close>.
\<close>

theorem count_rejected_counterexample:
  "case mtgp32_uint32_kernel example_dev 0 example_shared example_mem (replicate 1024 0) 1000 of
     None \<Rightarrow> False
   | Some (st', d_data) \<Rightarrow>
       st' ! 0 = 0x71589352 \<and> example_mem ! 0 = 1 \<and> d_data ! 726 = 0xdfa8a7c3"
proof -
  have "\<exists>st' d'. mtgp32_uint32_kernel example_dev 0 example_shared example_mem (replicate 1024 0) 1000
          = Some (st', d')
      \<and> length st' = length example_mem \<and> length d' = length (replicate 1024 (0 :: u32))
      \<and> (\<forall>j. 726 \<le> j \<longrightarrow> st' ! j = example_mem ! j)
      \<and> ([0 :: int] \<noteq> [] \<longrightarrow> d' ! nat (1000 * int 0 + last [0] + 726)
           = the (temper example_dev (the (para_rec example_dev (example_mem ! 726) (example_mem ! 727)
                                     (example_shared ! nat (1024 + 84)) 0))
                             (example_shared ! nat (1023 + 84)) 0))
      \<and> (\<forall>j. (\<forall>i \<in> set [0 :: int]. j < nat (1000 * int 0 + i) \<or> nat (1000 * int 0 + i + 1024) \<le> j)
              \<longrightarrow> d' ! j = replicate 1024 0 ! j)
      \<and> (\<forall>i. [0 :: int] = [i] \<longrightarrow>
            st' ! 0 = the (para_rec example_dev (example_mem ! 298) (example_mem ! 299)
                             (example_mem ! nat (298 + 84)) 0)
          \<and> st' ! 1 = the (para_rec example_dev (example_mem ! 299) (example_mem ! 300)
                             (example_mem ! nat (299 + 84)) 0))"
  proof (rule uint32_kernel_spec [where p = 84, OF _ _ _ _ _ _ _ _ batch_starts_1000])
    show "rdn (pos_tbl example_dev) 0 = Some 84"
      using pos_loaded [OF example_dev_loaded, of 0] by (simp add: example_params_def)
  qed (simp_all add: example_para_rec example_temper example_shared_def example_mem_def)
  then obtain st' d' where k: "mtgp32_uint32_kernel example_dev 0 example_shared example_mem
        (replicate 1024 0) 1000 = Some (st', d')"
    and o: "d' ! 726 = temperInt example_params (next_word example_params 2 2 0) 0"
    and s: "st' ! 0 = next_word example_params 1 1 1"
    by (auto simp: example_para_rec example_temper example_shared_def example_mem_def nth_append)
  have "st' ! 0 = 0x71589352"
    unfolding s by (simp add: next_word_def example_params_def Let_def)
  moreover have "d' ! 726 = 0xdfa8a7c3"
    unfolding o by (simp add: next_word_def temperInt_def t_reduce_def example_params_def Let_def)
  moreover have "example_mem ! 0 = 1" by (simp add: example_mem_def nth_append)
  ultimately show ?thesis by (simp add: k)
qed

text \<open>
  Claim C8, as amended. \<open>make_constant\<close> and \<open>make_texture\<close> check no range: when
  the allocations succeed, \<open>block_num\<close> is at most \<open>BLOCK_NUM_MAX\<close> and the length of
  the parameter array, and the tables have their \<open>TBL_SIZE\<close> entries, they succeed for
  any \<open>pos\<close>, \<open>sh1\<close> and \<open>sh2\<close> and load, for each stream \<open>bid\<close>, the words
  \<open>pos\<close>, \<open>sh1\<close>, \<open>sh2\<close> and the three tables of \<open>params[bid]\<close> into the
  slots of stream \<open>bid\<close>; what is loaded for a stream depends on its own parameter set
  only.
\<close>

theorem loaders_do_not_validate:
  assumes "block_num \<le> length params" "block_num \<le> BLOCK_NUM_MAX"
    and "\<forall>i<block_num. TBL_SIZE \<le> length (tbl (params ! i))
            \<and> TBL_SIZE \<le> length (tmp_tbl (params ! i))
            \<and> TBL_SIZE \<le> length (flt_tmp_tbl (params ! i))"
  shows "\<exists>dev'. load_params True params block_num dev = Inr dev'
     \<and> (\<forall>bid<block_num.
          rdn (pos_tbl dev') bid = Some (word_of_int (p_pos (params ! bid)))
        \<and> rdn (sh1_tbl dev') bid = Some (word_of_int (p_sh1 (params ! bid)))
        \<and> rdn (sh2_tbl dev') bid = Some (word_of_int (p_sh2 (params ! bid)))
        \<and> (\<forall>j<TBL_SIZE.
             tex1Dfetch (tex_param_ref dev') (bid * TBL_SIZE + j) = Some (tbl (params ! bid) ! j)
           \<and> tex1Dfetch (tex_temper_ref dev') (bid * TBL_SIZE + j) = Some (tmp_tbl (params ! bid) ! j)
           \<and> tex1Dfetch (tex_single_ref dev') (bid * TBL_SIZE + j)
               = Some (flt_tmp_tbl (params ! bid) ! j)))"
proof -
  have "\<not> isl (load_params True params block_num dev)"
    by (rule load_params_ok [OF assms])
  then obtain dev' where d: "load_params True params block_num dev = Inr dev'"
    by (cases "load_params True params block_num dev") auto
  note L = load_params_Inr [OF d]
  have "rdn (pos_tbl dev') bid = Some (word_of_int (p_pos (params ! bid)))
        \<and> rdn (sh1_tbl dev') bid = Some (word_of_int (p_sh1 (params ! bid)))
        \<and> rdn (sh2_tbl dev') bid = Some (word_of_int (p_sh2 (params ! bid)))
        \<and> (\<forall>j<TBL_SIZE.
             tex1Dfetch (tex_param_ref dev') (bid * TBL_SIZE + j) = Some (tbl (params ! bid) ! j)
           \<and> tex1Dfetch (tex_temper_ref dev') (bid * TBL_SIZE + j) = Some (tmp_tbl (params ! bid) ! j)
           \<and> tex1Dfetch (tex_single_ref dev') (bid * TBL_SIZE + j)
               = Some (flt_tmp_tbl (params ! bid) ! j))" if b: "bid < block_num" for bid
    using b
      tex_slot_tbl [where f = "\<lambda>i j. tbl (params ! i) ! j", OF b]
      tex_slot_tbl [where f = "\<lambda>i j. tmp_tbl (params ! i) ! j", OF b]
      tex_slot_tbl [where f = "\<lambda>i j. flt_tmp_tbl (params ! i) ! j", OF b]
    by (simp add: L(2,3,4,5,6,7) rdn_memcpy_to)
  with d show ?thesis by blast
qed

theorem loaders_do_not_validate_witness:
  "rdn (pos_tbl (projr (load_params True [unchecked_params] 1 device0))) 0 = Some 0
   \<and> rdn (sh2_tbl (projr (load_params True [unchecked_params] 1 device0))) 0 = Some 40
   \<and> tex1Dfetch (tex_param_ref (projr (load_params True [unchecked_params] 1 device0))) 1
       = Some 0x71588353"
proof -
  have "\<forall>i<1. TBL_SIZE \<le> length (tbl ([unchecked_params] ! i))
            \<and> TBL_SIZE \<le> length (tmp_tbl ([unchecked_params] ! i))
            \<and> TBL_SIZE \<le> length (flt_tmp_tbl ([unchecked_params] ! i))"
    by (simp add: unchecked_params_def example_params_def TBL_SIZE_def)
  from loaders_do_not_validate [of 1 "[unchecked_params]", OF _ _ this, of device0]
  obtain dev' where d: "load_params True [unchecked_params] 1 device0 = Inr dev'"
    and "\<forall>bid<1.
          rdn (pos_tbl dev') bid = Some (word_of_int (p_pos ([unchecked_params] ! bid)))
        \<and> rdn (sh1_tbl dev') bid = Some (word_of_int (p_sh1 ([unchecked_params] ! bid)))
        \<and> rdn (sh2_tbl dev') bid = Some (word_of_int (p_sh2 ([unchecked_params] ! bid)))
        \<and> (\<forall>j<TBL_SIZE.
             tex1Dfetch (tex_param_ref dev') (bid * TBL_SIZE + j) = Some (tbl ([unchecked_params] ! bid) ! j)
           \<and> tex1Dfetch (tex_temper_ref dev') (bid * TBL_SIZE + j) = Some (tmp_tbl ([unchecked_params] ! bid) ! j)
           \<and> tex1Dfetch (tex_single_ref dev') (bid * TBL_SIZE + j)
               = Some (flt_tmp_tbl ([unchecked_params] ! bid) ! j))"
    by (auto simp: BLOCK_NUM_MAX_def)
  then have "rdn (pos_tbl dev') 0 = Some (word_of_int (p_pos unchecked_params))"
    and "rdn (sh2_tbl dev') 0 = Some (word_of_int (p_sh2 unchecked_params))"
    and "1 < TBL_SIZE \<longrightarrow> tex1Dfetch (tex_param_ref dev') (0 * TBL_SIZE + 1) = Some (tbl unchecked_params ! 1)"
    by (simp_all)
  with d show ?thesis
    by (simp add: unchecked_params_def example_params_def TBL_SIZE_def)
qed

text \<open>
  Claim C8 as stated fails: a parameter set with \<open>pos = 0\<close>, \<open>sh1 = 0\<close> and
  \<open>sh2 = 40\<close> is loaded without an error.
\<close>

theorem loaders_validate_counterexample:
  "\<not> isl (load_params True [unchecked_params] 1 device0)"
  by (simp add: load_params_def make_constant_def make_texture_def Let_def
      unchecked_params_def example_params_def BLOCK_NUM_MAX_def TBL_SIZE_def)

end
